theory Spec2Isabelle
  imports Complex_Main "HOL-Library.Word"
begin

section \<open>Betweenness centrality, pull style (bc\_pull/gen.cpp)\<close>

text \<open>
  The embedding follows gen.cpp on one host: every vertex is its own owner, so the
  reduce and broadcast of a sync call leave the fields as they are, and a parallel
  \<open>do_all\<close> is the sequential pass over its range. \<open>uint32_t\<close> and \<open>uint64_t\<close> are
  \<open>32 word\<close> and \<open>64 word\<close> (unsigned, wrapping). The \<open>float\<close> fields are read as
  real numbers: rounding, infinities and NaN are left out, and the conversions between
  \<open>float\<close> and \<open>uint32_t\<close> are written out. The \<open>uint8_t\<close> flags only ever hold
  \<open>true\<close> or \<open>false\<close> and are \<open>bool\<close>. An \<open>assert\<close> that fails is the error value
  \<open>AssertionFailed\<close>.
\<close>

subsection \<open>Data model\<close>

type_synonym GNode = nat

record NodeData =
  current_length :: "32 word"
  num_shortest_paths :: "32 word"
  num_successors :: "32 word"
  num_predecessors :: "32 word"
  dependency :: real
  betweeness_centrality :: real
  propogation_flag :: bool
  trim :: "32 word"
  to_add :: "32 word"
  trim2 :: "32 word"
  to_add_float :: real
  num_short_paths_flag :: bool
  dep_prop_flag :: bool

type_synonym State = "GNode \<Rightarrow> NodeData"

text \<open>
  The graph collaborator \<open>hGraph\<close>: the two node ranges, the destinations of the edges
  of a node in iteration order, the global id of a local node and the node counts.
\<close>

record Graph =
  allNodes :: "GNode list"
  nodesWithEdges :: "GNode list"
  edges :: "GNode \<Rightarrow> GNode list"
  getGID :: "GNode \<Rightarrow> 64 word"
  totalNodes :: "64 word"

text \<open>The command line options, global variables of gen.cpp.\<close>

record Config =
  maxIterations :: "32 word"
  singleSourceBC :: bool
  startSource :: "32 word"
  numberOfSources :: "32 word"

datatype error = AssertionFailed | InvalidIterator

definition infinity :: "32 word" where
  "infinity = 4294967295 div 4"

definition do_all :: "(GNode \<Rightarrow> 's \<Rightarrow> 's) \<Rightarrow> GNode list \<Rightarrow> 's \<Rightarrow> 's" where
  "do_all f ns st = fold f ns st"

fun do_all_err :: "(GNode \<Rightarrow> 's \<Rightarrow> error + 's) \<Rightarrow> GNode list \<Rightarrow> 's \<Rightarrow> error + 's" where
  "do_all_err f [] st = Inr st"
| "do_all_err f (n # ns) st =
     (case f n st of Inl e \<Rightarrow> Inl e | Inr st' \<Rightarrow> do_all_err f ns st')"

subsection \<open>InitializeGraph and InitializeIteration\<close>

definition InitializeGraph_nd :: "NodeData \<Rightarrow> NodeData" where
  "InitializeGraph_nd src_data =
     src_data\<lparr>betweeness_centrality := 0, num_shortest_paths := 0, num_successors := 0,
       num_predecessors := 0, dependency := 0, propogation_flag := False\<rparr>"

definition InitializeGraph_op :: "GNode \<Rightarrow> State \<Rightarrow> State" where
  "InitializeGraph_op src st = st(src := InitializeGraph_nd (st src))"

definition InitializeGraph_go :: "Graph \<Rightarrow> State \<Rightarrow> State" where
  "InitializeGraph_go g st = do_all InitializeGraph_op (allNodes g) st"

definition InitializeIteration_nd :: "32 word \<Rightarrow> bool \<Rightarrow> NodeData \<Rightarrow> error + NodeData" where
  "InitializeIteration_nd local_infinity is_source src_data =
     (let d1 = (if \<not> is_source
                then src_data\<lparr>current_length := local_infinity, num_shortest_paths := 0,
                       propogation_flag := False\<rparr>
                else src_data\<lparr>current_length := 0, num_shortest_paths := 1,
                       propogation_flag := True\<rparr>);
          d2 = d1\<lparr>num_successors := 0\<rparr>
      in if num_predecessors d2 \<noteq> 0 then Inl AssertionFailed
         else if num_successors d2 \<noteq> 0 then Inl AssertionFailed
         else Inr (d2\<lparr>num_short_paths_flag := False, dep_prop_flag := False\<rparr>))"

definition InitializeIteration_op ::
    "32 word \<Rightarrow> 64 word \<Rightarrow> Graph \<Rightarrow> GNode \<Rightarrow> State \<Rightarrow> error + State" where
  "InitializeIteration_op local_infinity local_current_src_node g src st =
     (case InitializeIteration_nd local_infinity (getGID g src = local_current_src_node) (st src) of
        Inl e \<Rightarrow> Inl e
      | Inr d \<Rightarrow> Inr (st(src := d)))"

definition InitializeIteration_go :: "Graph \<Rightarrow> 64 word \<Rightarrow> State \<Rightarrow> error + State" where
  "InitializeIteration_go g current_src_node st =
     do_all_err (InitializeIteration_op infinity current_src_node g) (allNodes g) st"

subsection \<open>SSSP (breadth-first search)\<close>

text \<open>
  Modelled from the spec: \<open>Galois::min(a, b)\<close> of the Galois headers, which are not part
  of the sources at hand; it stores the smaller of \<open>a\<close> and \<open>b\<close> in \<open>a\<close> and returns
  the value \<open>a\<close> had before (the CAS-like minimum of the spec). The pair is
  (new \<open>a\<close>, old \<open>a\<close>).
\<close>

definition Galois_min :: "32 word \<Rightarrow> 32 word \<Rightarrow> 32 word \<times> 32 word" where
  "Galois_min a b = (if b < a then b else a, a)"

definition SSSP_edge :: "GNode \<Rightarrow> GNode \<Rightarrow> State \<times> 32 word \<Rightarrow> State \<times> 32 word" where
  "SSSP_edge src dst sa =
     (let st = fst sa; accum = snd sa;
          new_dist = 1 + current_length (st dst);
          m = Galois_min (current_length (st src)) new_dist;
          st' = st(src := (st src)\<lparr>current_length := fst m\<rparr>);
          old = snd m
      in if old > new_dist then (st', accum + 1) else (st', accum))"

definition SSSP_op :: "Graph \<Rightarrow> GNode \<Rightarrow> State \<times> 32 word \<Rightarrow> State \<times> 32 word" where
  "SSSP_op g src sa = fold (SSSP_edge src) (edges g src) sa"

definition SSSP_superstep :: "Graph \<Rightarrow> State \<Rightarrow> State \<times> 32 word" where
  "SSSP_superstep g st = do_all (SSSP_op g) (nodesWithEdges g) (st, 0)"

partial_function (option) SSSP_loop :: "Graph \<Rightarrow> State \<Rightarrow> 32 word \<Rightarrow> (State \<times> 32 word) option" where
  "SSSP_loop g st iterations =
     (let r = SSSP_superstep g st;
          iterations' = iterations + 1;
          accum_result = snd r
      in if accum_result \<noteq> 0 then SSSP_loop g (fst r) iterations'
         else Some (fst r, iterations'))"

definition SSSP_go :: "Graph \<Rightarrow> State \<Rightarrow> (State \<times> 32 word) option" where
  "SSSP_go g st = SSSP_loop g st 0"

subsection \<open>PredAndSucc\<close>

text \<open>
  Modelled from the spec: \<open>Galois::add(a, b)\<close> and \<open>Galois::atomicAdd(a, b)\<close> of the
  Galois headers add \<open>b\<close> to \<open>a\<close> in place; on \<open>uint32_t\<close> the sum wraps.
\<close>

definition Galois_add :: "32 word \<Rightarrow> 32 word \<Rightarrow> 32 word" where
  "Galois_add a b = a + b"

definition PredAndSucc_edge :: "GNode \<Rightarrow> GNode \<Rightarrow> State \<Rightarrow> State" where
  "PredAndSucc_edge src dst st =
     (if current_length (st dst) + 1 = current_length (st src)
      then (let st1 = st(src := (st src)\<lparr>num_predecessors :=
                        Galois_add (num_predecessors (st src)) 1\<rparr>)
            in st1(dst := (st1 dst)\<lparr>num_successors :=
                        Galois_add (num_successors (st1 dst)) 1\<rparr>))
      else st)"

definition PredAndSucc_op :: "32 word \<Rightarrow> Graph \<Rightarrow> GNode \<Rightarrow> State \<Rightarrow> State" where
  "PredAndSucc_op local_infinity g src st =
     (if current_length (st src) \<noteq> local_infinity
      then fold (PredAndSucc_edge src) (edges g src) st
      else st)"

definition PredAndSucc_go :: "Graph \<Rightarrow> State \<Rightarrow> State" where
  "PredAndSucc_go g st = do_all (PredAndSucc_op infinity g) (nodesWithEdges g) st"

subsection \<open>NumShortestPaths: the \<open>\<sigma>\<close>-phase\<close>

definition NSPTrim_nd :: "NodeData \<Rightarrow> NodeData" where
  "NSPTrim_nd src_data =
     (if trim src_data > 0
      then (src_data\<lparr>num_predecessors := num_predecessors src_data - trim src_data\<rparr>)
             \<lparr>trim := 0\<rparr>
      else src_data)"

definition NSPTrim_go :: "Graph \<Rightarrow> State \<Rightarrow> State" where
  "NSPTrim_go g st = do_all (\<lambda>src s. s(src := NSPTrim_nd (s src))) (allNodes g) st"

definition NSPAdd_nd :: "NodeData \<Rightarrow> NodeData" where
  "NSPAdd_nd src_data =
     (if to_add src_data > 0
      then (src_data\<lparr>num_shortest_paths := num_shortest_paths src_data + to_add src_data\<rparr>)
             \<lparr>to_add := 0\<rparr>
      else src_data)"

definition NSPAdd_go :: "Graph \<Rightarrow> State \<Rightarrow> State" where
  "NSPAdd_go g st = do_all (\<lambda>src s. s(src := NSPAdd_nd (s src))) (allNodes g) st"

definition NumShortestPathsChanges_nd :: "32 word \<Rightarrow> NodeData \<Rightarrow> error + NodeData" where
  "NumShortestPathsChanges_nd local_infinity src_data =
     (if current_length src_data \<noteq> local_infinity then
        (if num_predecessors src_data = 0 \<and> propogation_flag src_data then
           (if num_successors src_data \<noteq> 0
            then (let d1 = src_data\<lparr>propogation_flag := False\<rparr>
                  in if \<not> num_short_paths_flag d1
                     then Inr (d1\<lparr>num_short_paths_flag := True\<rparr>)
                     else Inr d1)
            else Inr src_data)
         else
           (if num_predecessors src_data = 0 \<and> \<not> num_short_paths_flag src_data
            then (if propogation_flag src_data then Inl AssertionFailed
                  else Inr (src_data\<lparr>propogation_flag := True,
                              num_short_paths_flag := True\<rparr>))
            else Inr src_data))
      else Inr src_data)"

definition NumShortestPathsChanges_op :: "32 word \<Rightarrow> GNode \<Rightarrow> State \<Rightarrow> error + State" where
  "NumShortestPathsChanges_op local_infinity src st =
     (case NumShortestPathsChanges_nd local_infinity (st src) of
        Inl e \<Rightarrow> Inl e
      | Inr d \<Rightarrow> Inr (st(src := d)))"

definition NumShortestPathsChanges_go :: "Graph \<Rightarrow> State \<Rightarrow> error + State" where
  "NumShortestPathsChanges_go g st =
     do_all_err (NumShortestPathsChanges_op infinity) (allNodes g) st"

definition NumShortestPaths_edge :: "GNode \<Rightarrow> GNode \<Rightarrow> State \<times> 32 word \<Rightarrow> State \<times> 32 word" where
  "NumShortestPaths_edge src dst sa =
     (let st = fst sa; accum = snd sa
      in if propogation_flag (st dst) then
           (if current_length (st dst) + 1 = current_length (st src)
            then (let st1 = st(src := (st src)\<lparr>trim := Galois_add (trim (st src)) 1\<rparr>);
                      st2 = st1(src := (st1 src)\<lparr>to_add :=
                              Galois_add (to_add (st1 src)) (num_shortest_paths (st1 dst))\<rparr>)
                  in (st2, accum + 1))
            else (st, accum))
         else (st, accum))"

definition NumShortestPaths_op ::
    "32 word \<Rightarrow> Graph \<Rightarrow> GNode \<Rightarrow> State \<times> 32 word \<Rightarrow> State \<times> 32 word" where
  "NumShortestPaths_op local_infinity g src sa =
     (if current_length (fst sa src) \<noteq> local_infinity then
        (if num_predecessors (fst sa src) > 0
         then fold (NumShortestPaths_edge src) (edges g src) sa
         else sa)
      else sa)"

definition NumShortestPaths_round :: "Graph \<Rightarrow> State \<Rightarrow> error + (State \<times> 32 word)" where
  "NumShortestPaths_round g st =
     (let r = do_all (NumShortestPaths_op infinity g) (nodesWithEdges g) (st, 0);
          st2 = NSPTrim_go g (fst r);
          st3 = NSPAdd_go g st2
      in case NumShortestPathsChanges_go g st3 of
           Inl e \<Rightarrow> Inl e
         | Inr st4 \<Rightarrow> Inr (st4, snd r))"

partial_function (option) NumShortestPaths_loop ::
    "Graph \<Rightarrow> State \<Rightarrow> 32 word \<Rightarrow> (error + (State \<times> 32 word)) option" where
  "NumShortestPaths_loop g st iterations =
     (case NumShortestPaths_round g st of
        Inl e \<Rightarrow> Some (Inl e)
      | Inr r \<Rightarrow>
          (let iterations' = iterations + 1; accum_result = snd r
           in if accum_result \<noteq> 0 then NumShortestPaths_loop g (fst r) iterations'
              else Some (Inr (fst r, iterations'))))"

definition NumShortestPaths_go :: "Graph \<Rightarrow> State \<Rightarrow> (error + (State \<times> 32 word)) option" where
  "NumShortestPaths_go g st = NumShortestPaths_loop g st 0"

subsection \<open>DependencyPropogation: the \<open>\<delta>\<close>-phase\<close>

definition DPTrim_nd :: "NodeData \<Rightarrow> NodeData" where
  "DPTrim_nd src_data =
     (if trim2 src_data > 0
      then (src_data\<lparr>num_successors := num_successors src_data - trim2 src_data\<rparr>)
             \<lparr>trim := 0\<rparr>
      else src_data)"

definition DPTrim_go :: "Graph \<Rightarrow> State \<Rightarrow> State" where
  "DPTrim_go g st = do_all (\<lambda>src s. s(src := DPTrim_nd (s src))) (allNodes g) st"

definition DPAdd_nd :: "NodeData \<Rightarrow> NodeData" where
  "DPAdd_nd src_data =
     (if to_add_float src_data > 0
      then (src_data\<lparr>dependency := dependency src_data + to_add_float src_data\<rparr>)
             \<lparr>to_add_float := 0\<rparr>
      else src_data)"

definition DPAdd_go :: "Graph \<Rightarrow> State \<Rightarrow> State" where
  "DPAdd_go g st = do_all (\<lambda>src s. s(src := DPAdd_nd (s src))) (allNodes g) st"

definition DependencyPropChanges_nd :: "32 word \<Rightarrow> NodeData \<Rightarrow> NodeData" where
  "DependencyPropChanges_nd local_infinity src_data =
     (if current_length src_data \<noteq> local_infinity then
        (if num_successors src_data = 0 \<and> \<not> dep_prop_flag src_data
         then src_data\<lparr>propogation_flag := True, dep_prop_flag := True\<rparr>
         else src_data)
      else src_data)"

definition DependencyPropChanges_go :: "Graph \<Rightarrow> State \<Rightarrow> State" where
  "DependencyPropChanges_go g st =
     do_all (\<lambda>src s. s(src := DependencyPropChanges_nd infinity (s src))) (nodesWithEdges g) st"

text \<open>
  The conversion \<open>uint32_t dep = src_data.dependency\<close> of a \<open>float\<close>: the fraction is
  dropped (towards zero) and the integer is taken in 32 bits.
\<close>

definition float_to_uint32 :: "real \<Rightarrow> 32 word" where
  "float_to_uint32 x = (if 0 \<le> x then word_of_int \<lfloor>x\<rfloor> else word_of_int \<lceil>x\<rceil>)"

definition uint32_to_float :: "32 word \<Rightarrow> real" where
  "uint32_to_float w = real (unat w)"

definition DependencyPropogation_edge ::
    "64 word \<Rightarrow> Graph \<Rightarrow> GNode \<Rightarrow> GNode \<Rightarrow> State \<times> 32 word \<Rightarrow> State \<times> 32 word" where
  "DependencyPropogation_edge local_current_src_node g src dst sa =
     (let st = fst sa; accum = snd sa
      in if getGID g dst = local_current_src_node then (st, accum)
         else
           (let dep = float_to_uint32 (dependency (st src))
            in if current_length (st dst) + 1 = current_length (st src)
               then (let st1 = st(dst := (st dst)\<lparr>trim2 := Galois_add (trim2 (st dst)) 1\<rparr>);
                         st2 = st1(dst := (st1 dst)\<lparr>to_add_float := to_add_float (st1 dst) +
                                 (uint32_to_float (num_shortest_paths (st1 dst)) /
                                    uint32_to_float (num_shortest_paths (st1 src))) *
                                 (1 + uint32_to_float dep)\<rparr>)
                     in (st2, accum + 1))
               else (st, accum)))"

definition DependencyPropogation_op ::
    "32 word \<Rightarrow> 64 word \<Rightarrow> Graph \<Rightarrow> GNode \<Rightarrow> State \<times> 32 word \<Rightarrow> error + (State \<times> 32 word)" where
  "DependencyPropogation_op local_infinity local_current_src_node g src sa =
     (if current_length (fst sa src) \<noteq> local_infinity then
        (if propogation_flag (fst sa src) then
           (if num_successors (fst sa src) \<noteq> 0 then Inl AssertionFailed
            else
              (let r = fold (DependencyPropogation_edge local_current_src_node g src)
                         (edges g src) sa;
                   st = fst r;
                   d1 = (st src)\<lparr>propogation_flag := False\<rparr>;
                   d2 = (if \<not> dep_prop_flag d1 then d1\<lparr>dep_prop_flag := True\<rparr> else d1)
               in Inr (st(src := d2), snd r)))
         else Inr sa)
      else Inr sa)"

definition DependencyPropogation_round ::
    "Graph \<Rightarrow> 64 word \<Rightarrow> State \<Rightarrow> error + (State \<times> 32 word)" where
  "DependencyPropogation_round g current_src_node st =
     (case do_all_err (DependencyPropogation_op infinity current_src_node g)
             (nodesWithEdges g) (st, 0) of
        Inl e \<Rightarrow> Inl e
      | Inr r \<Rightarrow>
          (let st2 = DPTrim_go g (fst r);
               st3 = DPAdd_go g st2;
               st4 = DependencyPropChanges_go g st3
           in Inr (st4, snd r)))"

partial_function (option) DependencyPropogation_loop ::
    "Graph \<Rightarrow> 64 word \<Rightarrow> State \<Rightarrow> 32 word \<Rightarrow> (error + (State \<times> 32 word)) option" where
  "DependencyPropogation_loop g current_src_node st iterations =
     (case DependencyPropogation_round g current_src_node st of
        Inl e \<Rightarrow> Some (Inl e)
      | Inr r \<Rightarrow>
          (let iterations' = iterations + 1; accum_result = snd r
           in if accum_result \<noteq> 0
              then DependencyPropogation_loop g current_src_node (fst r) iterations'
              else Some (Inr (fst r, iterations'))))"

definition DependencyPropogation_go ::
    "Graph \<Rightarrow> 64 word \<Rightarrow> State \<Rightarrow> (error + (State \<times> 32 word)) option" where
  "DependencyPropogation_go g current_src_node st =
     DependencyPropogation_loop g current_src_node st 0"

subsection \<open>BC: the accumulation and the driver\<close>

definition BC_nd :: "NodeData \<Rightarrow> NodeData" where
  "BC_nd src_data =
     (if dependency src_data > 0
      then (src_data\<lparr>betweeness_centrality :=
                betweeness_centrality src_data + dependency src_data\<rparr>)
             \<lparr>dependency := 0\<rparr>
      else src_data)"

definition BC_op :: "GNode \<Rightarrow> State \<Rightarrow> State" where
  "BC_op src st = st(src := BC_nd (st src))"

text \<open>
  The body of the loop of \<open>BC::go\<close> for one source. \<open>None\<close> is a phase that never
  leaves its loop.
\<close>

definition BC_iteration :: "Graph \<Rightarrow> 64 word \<Rightarrow> State \<Rightarrow> (error + State) option" where
  "BC_iteration g current_src_node st =
     (case InitializeIteration_go g current_src_node st of
        Inl e \<Rightarrow> Some (Inl e)
      | Inr st1 \<Rightarrow>
     (case SSSP_go g st1 of
        None \<Rightarrow> None
      | Some r2 \<Rightarrow>
     (let st3 = PredAndSucc_go g (fst r2)
      in case NumShortestPaths_go g st3 of
        None \<Rightarrow> None
      | Some (Inl e) \<Rightarrow> Some (Inl e)
      | Some (Inr r4) \<Rightarrow>
     (case DependencyPropogation_go g current_src_node (fst r4) of
        None \<Rightarrow> None
      | Some (Inl e) \<Rightarrow> Some (Inl e)
      | Some (Inr r5) \<Rightarrow> Some (Inr (do_all BC_op (allNodes g) (fst r5)))))))"

definition BC_use_random :: "Config \<Rightarrow> bool" where
  "BC_use_random cfg = (\<not> singleSourceBC cfg \<and> numberOfSources cfg \<noteq> 0)"

definition BC_loop_end :: "Config \<Rightarrow> Graph \<Rightarrow> nat" where
  "BC_loop_end cfg g =
     (if \<not> singleSourceBC cfg
      then (if numberOfSources cfg \<noteq> 0 then unat (numberOfSources cfg)
            else unat (totalNodes g))
      else 1)"

text \<open>
  The source of iteration \<open>i\<close>. The set \<open>random_sources\<close> is its ascending list of
  elements, and the iterator, advanced once in every iteration, stands at position \<open>i\<close>;
  reading it at the end of the set is the error \<open>InvalidIterator\<close>.
\<close>

definition BC_current_src :: "Config \<Rightarrow> 64 word list \<Rightarrow> nat \<Rightarrow> error + 64 word" where
  "BC_current_src cfg random_sources i =
     (if singleSourceBC cfg then Inr (ucast (startSource cfg))
      else if BC_use_random cfg
           then (if i < length random_sources then Inr (random_sources ! i)
                 else Inl InvalidIterator)
           else Inr (of_nat i))"

function BC_go_loop ::
    "Config \<Rightarrow> Graph \<Rightarrow> 64 word list \<Rightarrow> nat \<Rightarrow> nat \<Rightarrow> State \<Rightarrow> (error + State) option" where
  "BC_go_loop cfg g random_sources loop_end i st =
     (if i < loop_end then
        (case BC_current_src cfg random_sources i of
           Inl e \<Rightarrow> Some (Inl e)
         | Inr current_src_node \<Rightarrow>
             (case BC_iteration g current_src_node st of
                None \<Rightarrow> None
              | Some (Inl e) \<Rightarrow> Some (Inl e)
              | Some (Inr st') \<Rightarrow> BC_go_loop cfg g random_sources loop_end (Suc i) st'))
      else Some (Inr st))"
  by pat_completeness auto
termination
  by (relation "measure (\<lambda>(cfg, g, rs, loop_end, i, st). loop_end - i)") auto

declare BC_go_loop.simps [simp del]

definition BC_go :: "Config \<Rightarrow> Graph \<Rightarrow> 64 word list \<Rightarrow> State \<Rightarrow> (error + State) option" where
  "BC_go cfg g random_sources st = BC_go_loop cfg g random_sources (BC_loop_end cfg g) 0 st"

subsection \<open>The choice of sources in \<open>main\<close>\<close>






subsection \<open>Example inputs and auxiliary notions\<close>

definition zero_node :: NodeData where
  "zero_node = \<lparr>current_length = 0, num_shortest_paths = 0, num_successors = 0,
     num_predecessors = 0, dependency = 0, betweeness_centrality = 0,
     propogation_flag = False, trim = 0, to_add = 0, trim2 = 0, to_add_float = 0,
     num_short_paths_flag = False, dep_prop_flag = False\<rparr>"

definition zero_state :: State where
  "zero_state v = zero_node"

definition one_node_graph :: Graph where
  "one_node_graph = \<lparr>allNodes = [0], nodesWithEdges = [], edges = (\<lambda>v. []),
     getGID = of_nat, totalNodes = 1\<rparr>"

definition trim2_pending :: State where
  "trim2_pending v = zero_node\<lparr>num_successors := 1, trim2 := 1, trim := 7\<rparr>"

definition nsucc_left :: State where
  "nsucc_left v = zero_node\<lparr>num_successors := 5\<rparr>"

text \<open>What the reset leaves in the record \<open>d\<close> of the local node \<open>v\<close>, for the source \<open>s\<close>.\<close>

definition reset_post :: "Graph \<Rightarrow> 64 word \<Rightarrow> GNode \<Rightarrow> NodeData \<Rightarrow> bool" where
  "reset_post g s v d \<longleftrightarrow>
     num_predecessors d = 0 \<and> num_successors d = 0 \<and>
     \<not> num_short_paths_flag d \<and> \<not> dep_prop_flag d \<and>
     (if getGID g v = s
      then current_length d = 0 \<and> num_shortest_paths d = 1 \<and> propogation_flag d
      else current_length d = infinity \<and> num_shortest_paths d = 0 \<and> \<not> propogation_flag d)"

definition tail_diamond :: Graph where
  "tail_diamond = \<lparr>allNodes = [0, 1, 2, 3, 4], nodesWithEdges = [1, 2, 3, 4],
     edges = (\<lambda>v. if v = 1 then [0] else if v = 2 then [1] else if v = 3 then [1]
                  else if v = 4 then [2, 3] else []),
     getGID = of_nat, totalNodes = 5\<rparr>"

text \<open>
  The vertices of \<open>tail_diamond\<close> at the second round of the \<open>\<delta>\<close>-phase for the source 0:
  vertex 4 has passed its dependency on, and the vertices 2 and 3 hold \<open>1/2\<close> each.
\<close>

definition delta_round2 :: State where
  "delta_round2 v =
     (if v = 0 then zero_node\<lparr>num_shortest_paths := 1, num_successors := 1,
                      num_short_paths_flag := True\<rparr>
      else if v = 1 then zero_node\<lparr>current_length := 1, num_shortest_paths := 1,
                            num_successors := 2, num_short_paths_flag := True\<rparr>
      else if v = 2 \<or> v = 3
           then zero_node\<lparr>current_length := 2, num_shortest_paths := 1, dependency := 1 / 2,
                  propogation_flag := True, trim2 := 1, num_short_paths_flag := True,
                  dep_prop_flag := True\<rparr>
           else zero_node\<lparr>current_length := 3, num_shortest_paths := 2,
                  num_short_paths_flag := True, dep_prop_flag := True\<rparr>)"

text \<open>
  The vertices of \<open>tail_diamond\<close> in the \<open>\<sigma>\<close>-phase for the source 0, when the vertices
  2 and 3 hold the token and vertex 4 waits for its two predecessors.
\<close>

definition sigma_round3 :: State where
  "sigma_round3 v =
     (if v = 0 then zero_node\<lparr>num_shortest_paths := 1, num_successors := 1,
                      num_short_paths_flag := True\<rparr>
      else if v = 1 then zero_node\<lparr>current_length := 1, num_shortest_paths := 1,
                            num_successors := 2, num_short_paths_flag := True\<rparr>
      else if v = 2 \<or> v = 3
           then zero_node\<lparr>current_length := 2, num_shortest_paths := 1, num_successors := 1,
                  propogation_flag := True, num_short_paths_flag := True\<rparr>
           else zero_node\<lparr>current_length := 3, num_predecessors := 2\<rparr>)"

text \<open>
  The out-edge \<open>(s, t)\<close> feeds \<open>s\<close> in the \<open>\<sigma>\<close>-phase: \<open>t\<close> holds the token and lies
  one step nearer to the source.
\<close>

definition sigma_ready :: "State \<Rightarrow> GNode \<Rightarrow> GNode \<Rightarrow> bool" where
  "sigma_ready st s t \<longleftrightarrow>
     propogation_flag (st t) \<and> current_length (st t) + 1 = current_length (st s)"

text \<open>
  One pass of BFS over vertices of \<open>S\<close>, from \<open>sa\<close> to \<open>sa'\<close>: no distance grows, and
  an accumulator that has moved tells of a distance that has shrunk.
\<close>

definition SSSP_progress :: "GNode set \<Rightarrow> State \<times> 32 word \<Rightarrow> State \<times> 32 word \<Rightarrow> bool" where
  "SSSP_progress S sa sa' \<longleftrightarrow>
     (\<forall>v. current_length (fst sa' v) \<le> current_length (fst sa v)) \<and>
     (snd sa' \<noteq> snd sa \<longrightarrow> (\<exists>v\<in>S. current_length (fst sa' v) < current_length (fst sa v)))"

definition dist_sum :: "GNode list \<Rightarrow> State \<Rightarrow> nat" where
  "dist_sum ns st = sum_list (map (\<lambda>v. unat (current_length (st v))) ns)"

definition path3 :: Graph where
  "path3 = \<lparr>allNodes = [0, 1, 2], nodesWithEdges = [2, 1],
     edges = (\<lambda>v. if v = 1 then [0] else if v = 2 then [1] else []),
     getGID = of_nat, totalNodes = 3\<rparr>"

definition path3_start :: State where
  "path3_start v =
     (if v = 0 then zero_node\<lparr>num_shortest_paths := 1, propogation_flag := True\<rparr>
      else zero_node\<lparr>current_length := infinity\<rparr>)"

definition cap1 :: Config where
  "cap1 = \<lparr>maxIterations = 1, singleSourceBC = True, startSource = 0, numberOfSources = 0\<rparr>"



definition unreached_state :: State where
  "unreached_state v = zero_node\<lparr>current_length := infinity\<rparr>"

text \<open>
  The out-edge \<open>(s, t)\<close> lies on the shortest-path DAG: \<open>t\<close> is one step nearer to the
  source than \<open>s\<close>. \<open>dag_edges\<close> lists the DAG edges that \<open>PredAndSucc\<close> visits, one
  entry for every edge of every vertex with edges whose distance is not \<open>infinity\<close>.
\<close>

definition dag_edge :: "State \<Rightarrow> GNode \<Rightarrow> GNode \<Rightarrow> bool" where
  "dag_edge st s t \<longleftrightarrow> current_length (st t) + 1 = current_length (st s)"

definition dag_edges_of :: "Graph \<Rightarrow> State \<Rightarrow> GNode \<Rightarrow> (GNode \<times> GNode) list" where
  "dag_edges_of g st s =
     (if current_length (st s) \<noteq> infinity
      then map (Pair s) (filter (dag_edge st s) (edges g s))
      else [])"

definition dag_edges :: "Graph \<Rightarrow> State \<Rightarrow> (GNode \<times> GNode) list" where
  "dag_edges g st = concat (map (dag_edges_of g st) (nodesWithEdges g))"

text \<open>The vertices of \<open>tail_diamond\<close> after BFS from the source 0.\<close>

definition bfs_done :: State where
  "bfs_done v =
     (if v = 0 then zero_node\<lparr>num_shortest_paths := 1, propogation_flag := True\<rparr>
      else if v = 1 then zero_node\<lparr>current_length := 1\<rparr>
      else if v = 2 \<or> v = 3 then zero_node\<lparr>current_length := 2\<rparr>
      else zero_node\<lparr>current_length := 3\<rparr>)"

text \<open>
  From the record \<open>d\<close> to \<open>d'\<close> the score \<open>betweeness_centrality\<close> is kept and
  \<open>dependency\<close> does not shrink; \<open>steady\<close> says so of every vertex of two states.
\<close>

definition steady_nd :: "NodeData \<Rightarrow> NodeData \<Rightarrow> bool" where
  "steady_nd d d' \<longleftrightarrow>
     betweeness_centrality d' = betweeness_centrality d \<and> dependency d \<le> dependency d'"

definition steady :: "State \<Rightarrow> State \<Rightarrow> bool" where
  "steady st st' \<longleftrightarrow> (\<forall>v. steady_nd (st v) (st' v))"

text \<open>
  The states of \<open>path3\<close> in the iteration for the source 0 that starts from
  \<open>unreached_state\<close>: after BFS, after \<open>PredAndSucc\<close>, after the \<open>\<sigma>\<close>-phase and after the
  \<open>\<delta>\<close>-phase.
\<close>

definition path3_bfs :: State where
  "path3_bfs v =
     (if v = 0 then zero_node\<lparr>num_shortest_paths := 1, propogation_flag := True\<rparr>
      else if v = 1 then zero_node\<lparr>current_length := 1\<rparr>
      else if v = 2 then zero_node\<lparr>current_length := 2\<rparr>
      else zero_node\<lparr>current_length := infinity\<rparr>)"

definition path3_dag :: State where
  "path3_dag v =
     (if v = 0 then zero_node\<lparr>num_shortest_paths := 1, propogation_flag := True,
                      num_successors := 1\<rparr>
      else if v = 1 then zero_node\<lparr>current_length := 1, num_predecessors := 1,
                            num_successors := 1\<rparr>
      else if v = 2 then zero_node\<lparr>current_length := 2, num_predecessors := 1\<rparr>
      else zero_node\<lparr>current_length := infinity\<rparr>)"

definition path3_sigma :: State where
  "path3_sigma v =
     (if v = 0 then zero_node\<lparr>num_shortest_paths := 1, num_successors := 1,
                      num_short_paths_flag := True\<rparr>
      else if v = 1 then zero_node\<lparr>current_length := 1, num_shortest_paths := 1,
                            num_successors := 1, num_short_paths_flag := True\<rparr>
      else if v = 2 then zero_node\<lparr>current_length := 2, num_shortest_paths := 1,
                            propogation_flag := True, num_short_paths_flag := True\<rparr>
      else zero_node\<lparr>current_length := infinity\<rparr>)"

definition path3_delta :: State where
  "path3_delta v =
     (if v = 0 then zero_node\<lparr>num_shortest_paths := 1, num_successors := 1,
                      num_short_paths_flag := True\<rparr>
      else if v = 1 then zero_node\<lparr>current_length := 1, num_shortest_paths := 1,
                            num_successors := 4294967295, dependency := 1, trim2 := 1,
                            num_short_paths_flag := True, dep_prop_flag := True\<rparr>
      else if v = 2 then zero_node\<lparr>current_length := 2, num_shortest_paths := 1,
                            num_short_paths_flag := True, dep_prop_flag := True\<rparr>
      else zero_node\<lparr>current_length := infinity\<rparr>)"



section \<open>Properties\<close>

subsection \<open>DPTrim\<close>

text \<open>
  C2. The claim: in the trim-apply superstep of the \<open>\<delta>\<close>-phase every vertex with
  \<open>trim2 > 0\<close> has \<open>num_successors\<close> decreased by \<open>trim2\<close> and \<open>trim2\<close> reset to 0.
  The operator clears \<open>trim\<close> instead: on a vertex with \<open>trim2 = 1\<close>,
  \<open>num_successors = 1\<close> and \<open>trim = 7\<close> it leaves \<open>trim2 = 1\<close>, takes
  \<open>num_successors\<close> to 0 and sets \<open>trim\<close> to 0. The sibling \<open>NSPTrim\<close> clears the
  field it has just applied.
\<close>

theorem DPTrim_leaves_trim2:
  "trim2 (DPTrim_go one_node_graph trim2_pending 0) = 1 \<and>
   num_successors (DPTrim_go one_node_graph trim2_pending 0) = 0 \<and>
   trim (DPTrim_go one_node_graph trim2_pending 0) = 0"
  by (simp add: DPTrim_go_def do_all_def one_node_graph_def trim2_pending_def
      DPTrim_nd_def zero_node_def)

subsection \<open>InitializeIteration\<close>

lemma InitializeIteration_nd_Inr:
  "InitializeIteration_nd li b d = Inr d' \<longleftrightarrow>
     (num_predecessors d = 0 \<and>
      d' = d\<lparr>current_length := (if b then 0 else li),
             num_shortest_paths := (if b then 1 else 0),
             propogation_flag := b, num_successors := 0,
             num_short_paths_flag := False, dep_prop_flag := False\<rparr>)"
  by (auto simp: InitializeIteration_nd_def Let_def)

lemma InitializeIteration_nd_Inl:
  "isl (InitializeIteration_nd li b d) \<longleftrightarrow> num_predecessors d \<noteq> 0"
  by (auto simp: InitializeIteration_nd_def Let_def)

lemma InitializeIteration_op_Inr:
  "InitializeIteration_op li s g n st = Inr st1 \<longleftrightarrow>
     (\<exists>d. InitializeIteration_nd li (getGID g n = s) (st n) = Inr d \<and> st1 = st(n := d))"
  by (auto simp: InitializeIteration_op_def split: sum.splits)

lemma InitializeIteration_do_all_Inr:
  "do_all_err (InitializeIteration_op infinity s g) ns st = Inr st' \<Longrightarrow>
     (\<forall>v. (v \<in> set ns \<longrightarrow> reset_post g s v (st' v) \<and> num_predecessors (st v) = 0) \<and>
          (v \<notin> set ns \<longrightarrow> st' v = st v))"
proof (induction ns arbitrary: st)
  case Nil
  then show ?case by simp
next
  case (Cons n ns)
  from Cons.prems obtain d where
    d: "InitializeIteration_nd infinity (getGID g n = s) (st n) = Inr d"
    and rest: "do_all_err (InitializeIteration_op infinity s g) ns (st(n := d)) = Inr st'"
    by (auto simp: InitializeIteration_op_Inr split: sum.splits)
  note IH = Cons.IH [OF rest]
  from d have d0: "num_predecessors (st n) = 0" and dpost: "reset_post g s n d"
    by (auto simp: InitializeIteration_nd_Inr reset_post_def)
  show ?case
  proof (intro allI conjI impI)
    fix v assume "v \<in> set (n # ns)"
    then show "reset_post g s v (st' v)"
      using IH dpost by (cases "v \<in> set ns") auto
  next
    fix v assume "v \<in> set (n # ns)"
    then show "num_predecessors (st v) = 0"
      using IH d0 by (cases "v = n") (auto split: if_splits)
  next
    fix v assume "v \<notin> set (n # ns)"
    then show "st' v = st v" using IH by auto
  qed
qed

lemma InitializeIteration_do_all_isl:
  "isl (do_all_err (InitializeIteration_op infinity s g) ns st) \<longleftrightarrow>
     (\<exists>v\<in>set ns. num_predecessors (st v) \<noteq> 0)"
proof (induction ns arbitrary: st)
  case Nil
  then show ?case by simp
next
  case (Cons n ns)
  show ?case
  proof (cases "InitializeIteration_nd infinity (getGID g n = s) (st n)")
    case (Inl e)
    then have "num_predecessors (st n) \<noteq> 0"
      using InitializeIteration_nd_Inl [of infinity "getGID g n = s" "st n"] by simp
    with Inl show ?thesis by (simp add: InitializeIteration_op_def)
  next
    case (Inr d)
    then have d0: "num_predecessors (st n) = 0" and dd: "num_predecessors d = 0"
      by (auto simp: InitializeIteration_nd_Inr)
    have "isl (do_all_err (InitializeIteration_op infinity s g) (n # ns) st) \<longleftrightarrow>
          isl (do_all_err (InitializeIteration_op infinity s g) ns (st(n := d)))"
      using Inr by (simp add: InitializeIteration_op_def)
    also have "\<dots> \<longleftrightarrow> (\<exists>v\<in>set ns. num_predecessors ((st(n := d)) v) \<noteq> 0)"
      by (rule Cons.IH)
    also have "\<dots> \<longleftrightarrow> (\<exists>v\<in>set (n # ns). num_predecessors (st v) \<noteq> 0)"
      using d0 dd by auto
    finally show ?thesis .
  qed
qed

text \<open>
  C4, as the claim states it: the assertion \<open>num_successors == 0\<close> is checked before
  \<open>num_successors\<close> is zeroed, so a reset that meets a vertex with
  \<open>num_successors = 5\<close> fails. The operator stores 0 first and asserts afterwards: the
  reset of that vertex goes through.
\<close>

theorem InitializeIteration_counterexample:
  "num_successors (nsucc_left 0) \<noteq> 0 \<and>
   \<not> isl (InitializeIteration_go one_node_graph 0 nsucc_left)"
  by (simp add: InitializeIteration_go_def InitializeIteration_op_def InitializeIteration_nd_def
      one_node_graph_def nsucc_left_def zero_node_def)

text \<open>
  C4, amended. The reset writes \<open>num_successors\<close>, the two done flags and
  \<open>(current_length, num_shortest_paths, propogation_flag)\<close>; it never writes
  \<open>num_predecessors\<close>, which it only asserts to be 0. It fails exactly when some local
  vertex has \<open>num_predecessors \<noteq> 0\<close>; no value of \<open>num_successors\<close> makes it fail.
  When it goes through, every local vertex \<open>v\<close> had \<open>num_predecessors = 0\<close> before and
  has afterwards \<open>num_predecessors = 0\<close>, \<open>num_successors = 0\<close>, both done flags false,
  and \<open>(0, 1, true)\<close> when its global id is the source, \<open>(infinity, 0, false)\<close> otherwise.
\<close>

theorem InitializeIteration_resets:
  "(isl (InitializeIteration_go g s st) \<longleftrightarrow>
      (\<exists>v\<in>set (allNodes g). num_predecessors (st v) \<noteq> 0)) \<and>
   (\<forall>st'. InitializeIteration_go g s st = Inr st' \<longrightarrow>
      (\<forall>v\<in>set (allNodes g). num_predecessors (st v) = 0 \<and> reset_post g s v (st' v)))"
  unfolding InitializeIteration_go_def
  using InitializeIteration_do_all_isl [of s g "allNodes g" st]
    InitializeIteration_do_all_Inr [of s g "allNodes g" st]
  by blast

theorem InitializeIteration_resets_witness:
  "\<not> isl (InitializeIteration_go one_node_graph 0 nsucc_left) \<and>
   reset_post one_node_graph 0 0 (projr (InitializeIteration_go one_node_graph 0 nsucc_left) 0)"
proof -
  note T = InitializeIteration_resets [of one_node_graph 0 nsucc_left]
  have pre: "\<not> (\<exists>v\<in>set (allNodes one_node_graph). num_predecessors (nsucc_left v) \<noteq> 0)"
    by (simp add: one_node_graph_def nsucc_left_def zero_node_def)
  with T have ok: "\<not> isl (InitializeIteration_go one_node_graph 0 nsucc_left)"
    by blast
  then have "InitializeIteration_go one_node_graph 0 nsucc_left =
      Inr (projr (InitializeIteration_go one_node_graph 0 nsucc_left))"
    by simp
  with T have "\<forall>v\<in>set (allNodes one_node_graph).
      reset_post one_node_graph 0 v (projr (InitializeIteration_go one_node_graph 0 nsucc_left) v)"
    by blast
  then have "reset_post one_node_graph 0 0
      (projr (InitializeIteration_go one_node_graph 0 nsucc_left) 0)"
    by (simp add: one_node_graph_def)
  with ok show ?thesis by simp
qed

subsection \<open>DependencyPropogation\<close>

text \<open>
  C1. The claim: for an out-edge \<open>(s, t)\<close> that qualifies, the operator adds exactly
  \<open>(sigma(t)/sigma(s)) * (1 + delta(s))\<close> to \<open>to_add_float(t)\<close>. The operator reads
  \<open>delta(s)\<close> into \<open>uint32_t dep\<close> first, which drops its fraction. On \<open>tail_diamond\<close>
  with the source 0, vertex \<open>s = 2\<close> holds \<open>delta = 1/2\<close> and \<open>sigma = 1\<close>, and its
  out-edge goes to \<open>t = 1\<close> with \<open>sigma = 1\<close>: the operator adds 1 to \<open>to_add_float(1)\<close>
  (and 1 to \<open>trim2(1)\<close>, and one unit of work), where the claim has \<open>3/2\<close>.
\<close>

theorem DependencyPropogation_truncates:
  "\<not> isl (DependencyPropogation_op infinity 0 tail_diamond 2 (delta_round2, 0)) \<and>
   to_add_float (fst (projr (DependencyPropogation_op infinity 0 tail_diamond 2
      (delta_round2, 0))) 1) = 1 \<and>
   trim2 (fst (projr (DependencyPropogation_op infinity 0 tail_diamond 2
      (delta_round2, 0))) 1) = 1 \<and>
   snd (projr (DependencyPropogation_op infinity 0 tail_diamond 2 (delta_round2, 0))) = 1 \<and>
   to_add_float (delta_round2 1) +
     (uint32_to_float (num_shortest_paths (delta_round2 1)) /
        uint32_to_float (num_shortest_paths (delta_round2 2))) *
     (1 + dependency (delta_round2 2)) = 3 / 2"
  by (simp add: DependencyPropogation_op_def DependencyPropogation_edge_def tail_diamond_def
      delta_round2_def zero_node_def infinity_def Let_def float_to_uint32_def
      uint32_to_float_def Galois_add_def)

subsection \<open>NumShortestPaths\<close>

lemma NumShortestPaths_edge_step:
  "NumShortestPaths_edge s t (st(s := (st s)\<lparr>trim := a, to_add := b\<rparr>), acc) =
     (if sigma_ready st s t
      then (st(s := (st s)\<lparr>trim := a + 1, to_add := b + num_shortest_paths (st t)\<rparr>), acc + 1)
      else (st(s := (st s)\<lparr>trim := a, to_add := b\<rparr>), acc))"
  by (simp add: NumShortestPaths_edge_def sigma_ready_def Let_def Galois_add_def)

lemma NumShortestPaths_edges_fold:
  "fold (NumShortestPaths_edge s) es (st(s := (st s)\<lparr>trim := a, to_add := b\<rparr>), acc) =
     (st(s := (st s)\<lparr>trim := a + of_nat (length (filter (sigma_ready st s) es)),
                     to_add := b + sum_list (map (\<lambda>t. num_shortest_paths (st t))
                                    (filter (sigma_ready st s) es))\<rparr>),
      acc + of_nat (length (filter (sigma_ready st s) es)))"
proof (induction es arbitrary: a b acc)
  case Nil
  then show ?case by simp
next
  case (Cons t es)
  show ?case
  proof (cases "sigma_ready st s t")
    case True
    have e1: "\<And>x::32 word. x + 1 + of_nat (length (filter (sigma_ready st s) es)) =
        x + of_nat (length (filter (sigma_ready st s) (t # es)))"
      using True by simp
    have e2: "b + num_shortest_paths (st t) +
          sum_list (map (\<lambda>t. num_shortest_paths (st t)) (filter (sigma_ready st s) es)) =
        b + sum_list (map (\<lambda>t. num_shortest_paths (st t)) (filter (sigma_ready st s) (t # es)))"
      using True by (simp add: add.assoc)
    have "fold (NumShortestPaths_edge s) (t # es) (st(s := (st s)\<lparr>trim := a, to_add := b\<rparr>), acc) =
          fold (NumShortestPaths_edge s) es
            (st(s := (st s)\<lparr>trim := a + 1, to_add := b + num_shortest_paths (st t)\<rparr>), acc + 1)"
      using True by (simp only: fold_simps NumShortestPaths_edge_step if_True)
    also have "\<dots> =
          (st(s := (st s)\<lparr>trim := a + 1 + of_nat (length (filter (sigma_ready st s) es)),
                to_add := b + num_shortest_paths (st t) +
                  sum_list (map (\<lambda>t. num_shortest_paths (st t)) (filter (sigma_ready st s) es))\<rparr>),
           acc + 1 + of_nat (length (filter (sigma_ready st s) es)))"
      by (rule Cons.IH)
    finally show ?thesis
      unfolding e1 e2 .
  next
    case False
    then have e: "filter (sigma_ready st s) (t # es) = filter (sigma_ready st s) es"
      by simp
    have "fold (NumShortestPaths_edge s) (t # es) (st(s := (st s)\<lparr>trim := a, to_add := b\<rparr>), acc) =
          fold (NumShortestPaths_edge s) es (st(s := (st s)\<lparr>trim := a, to_add := b\<rparr>), acc)"
      using False by (simp only: fold_simps NumShortestPaths_edge_step if_False)
    also have "\<dots> =
          (st(s := (st s)\<lparr>trim := a + of_nat (length (filter (sigma_ready st s) es)),
                to_add := b +
                  sum_list (map (\<lambda>t. num_shortest_paths (st t)) (filter (sigma_ready st s) es))\<rparr>),
           acc + of_nat (length (filter (sigma_ready st s) es)))"
      by (rule Cons.IH)
    finally show ?thesis
      unfolding e .
  qed
qed

text \<open>
  C6. The propagate operator of the \<open>\<sigma>\<close>-phase on the vertex \<open>s\<close>. When
  \<open>dist(s) \<noteq> INF\<close> and \<open>npred(s) > 0\<close>, every out-edge \<open>(s, t)\<close> with \<open>prop_flag(t)\<close>
  set and \<open>dist(t) + 1 = dist(s)\<close> adds 1 to \<open>trim(s)\<close>, \<open>sigma(t)\<close> to \<open>to_add(s)\<close> and
  one unit to the accumulator, and nothing else changes. When \<open>npred(s) = 0\<close> or
  \<open>dist(s) = INF\<close> the state and the accumulator stay as they are.
\<close>

theorem NumShortestPaths_op_effect:
  "NumShortestPaths_op infinity g s (st, accum) =
     (if current_length (st s) \<noteq> infinity \<and> num_predecessors (st s) > 0
      then (st(s := (st s)\<lparr>
               trim := trim (st s) + of_nat (length (filter (sigma_ready st s) (edges g s))),
               to_add := to_add (st s) + sum_list (map (\<lambda>t. num_shortest_paths (st t))
                                            (filter (sigma_ready st s) (edges g s)))\<rparr>),
            accum + of_nat (length (filter (sigma_ready st s) (edges g s))))
      else (st, accum))"
proof -
  have same: "st(s := (st s)\<lparr>trim := trim (st s), to_add := to_add (st s)\<rparr>) = st"
    by simp
  show ?thesis
    using NumShortestPaths_edges_fold [where s = s and es = "edges g s" and st = st
        and a = "trim (st s)" and b = "to_add (st s)" and acc = accum]
    unfolding same
    by (simp add: NumShortestPaths_op_def)
qed

theorem NumShortestPaths_op_effect_witness:
  "trim (fst (NumShortestPaths_op infinity tail_diamond 4 (sigma_round3, 0)) 4) = 2 \<and>
   to_add (fst (NumShortestPaths_op infinity tail_diamond 4 (sigma_round3, 0)) 4) = 2 \<and>
   snd (NumShortestPaths_op infinity tail_diamond 4 (sigma_round3, 0)) = 2 \<and>
   NumShortestPaths_op infinity tail_diamond 1 (sigma_round3, 0) = (sigma_round3, 0)"
  using NumShortestPaths_op_effect [of tail_diamond 4 sigma_round3 0]
    NumShortestPaths_op_effect [of tail_diamond 1 sigma_round3 0]
  by (simp add: tail_diamond_def sigma_round3_def sigma_ready_def zero_node_def infinity_def)

subsection \<open>SSSP\<close>

lemma SSSP_progress_refl: "SSSP_progress S sa sa"
  by (simp add: SSSP_progress_def)

lemma SSSP_progress_trans:
  assumes "SSSP_progress S a b" "SSSP_progress S b c"
  shows "SSSP_progress S a c"
proof -
  have le: "\<forall>v. current_length (fst c v) \<le> current_length (fst a v)"
    using assms by (auto simp: SSSP_progress_def intro: order_trans)
  have "\<exists>v\<in>S. current_length (fst c v) < current_length (fst a v)" if "snd c \<noteq> snd a"
  proof (cases "snd b = snd a")
    case True
    with that assms(2) obtain v where "v \<in> S" "current_length (fst c v) < current_length (fst b v)"
      by (auto simp: SSSP_progress_def)
    moreover have "current_length (fst b v) \<le> current_length (fst a v)"
      using assms(1) by (simp add: SSSP_progress_def)
    ultimately show ?thesis by (auto intro: less_le_trans)
  next
    case False
    with assms(1) obtain v where "v \<in> S" "current_length (fst b v) < current_length (fst a v)"
      by (auto simp: SSSP_progress_def)
    moreover have "current_length (fst c v) \<le> current_length (fst b v)"
      using assms(2) by (simp add: SSSP_progress_def)
    ultimately show ?thesis by (auto intro: le_less_trans)
  qed
  with le show ?thesis by (simp add: SSSP_progress_def)
qed

lemma SSSP_edge_eq:
  "SSSP_edge s t (st, a) =
     (if 1 + current_length (st t) < current_length (st s)
      then (st(s := (st s)\<lparr>current_length := 1 + current_length (st t)\<rparr>), a + 1)
      else (st, a))"
  by (simp add: SSSP_edge_def Galois_min_def Let_def)

lemma SSSP_edge_progress: "s \<in> S \<Longrightarrow> SSSP_progress S sa (SSSP_edge s t sa)"
  by (cases sa) (auto simp: SSSP_edge_eq SSSP_progress_def)

lemma SSSP_edges_progress:
  "s \<in> S \<Longrightarrow> SSSP_progress S sa (fold (SSSP_edge s) ts sa)"
proof (induction ts arbitrary: sa)
  case Nil
  then show ?case by (simp add: SSSP_progress_refl)
next
  case (Cons t ts)
  have "SSSP_progress S sa (SSSP_edge s t sa)"
    using Cons.prems by (rule SSSP_edge_progress)
  moreover have "SSSP_progress S (SSSP_edge s t sa) (fold (SSSP_edge s) ts (SSSP_edge s t sa))"
    using Cons.prems by (rule Cons.IH)
  ultimately show ?case
    by (simp add: SSSP_progress_trans)
qed

lemma SSSP_nodes_progress:
  "set ns \<subseteq> S \<Longrightarrow> SSSP_progress S sa (fold (SSSP_op g) ns sa)"
proof (induction ns arbitrary: sa)
  case Nil
  then show ?case by (simp add: SSSP_progress_refl)
next
  case (Cons n ns)
  have "SSSP_progress S sa (SSSP_op g n sa)"
    using Cons.prems by (simp add: SSSP_op_def SSSP_edges_progress)
  moreover have "SSSP_progress S (SSSP_op g n sa) (fold (SSSP_op g) ns (SSSP_op g n sa))"
    using Cons.prems by (intro Cons.IH) simp
  ultimately show ?case
    by (simp add: SSSP_progress_trans)
qed

lemma sum_list_strict:
  fixes f h :: "'a \<Rightarrow> nat"
  assumes "\<forall>x\<in>set xs. f x \<le> h x" "\<exists>x\<in>set xs. f x < h x"
  shows "sum_list (map f xs) < sum_list (map h xs)"
  using assms
proof (induction xs)
  case Nil
  then show ?case by simp
next
  case (Cons x xs)
  have le: "sum_list (map f xs) \<le> sum_list (map h xs)"
    using Cons.prems(1) by (intro sum_list_mono) simp
  show ?case
  proof (cases "f x < h x")
    case True
    with le show ?thesis by simp
  next
    case False
    with Cons.prems have "f x \<le> h x" "\<exists>y\<in>set xs. f y < h y" "\<forall>y\<in>set xs. f y \<le> h y"
      by auto
    with Cons.IH show ?thesis by fastforce
  qed
qed

lemma SSSP_superstep_decreases:
  assumes "snd (SSSP_superstep g st) \<noteq> 0"
  shows "dist_sum (nodesWithEdges g) (fst (SSSP_superstep g st)) < dist_sum (nodesWithEdges g) st"
proof -
  have P: "SSSP_progress (set (nodesWithEdges g)) (st, 0) (SSSP_superstep g st)"
    unfolding SSSP_superstep_def do_all_def by (rule SSSP_nodes_progress) simp
  have le: "\<forall>v\<in>set (nodesWithEdges g).
      unat (current_length (fst (SSSP_superstep g st) v)) \<le> unat (current_length (st v))"
    using P by (simp add: SSSP_progress_def word_le_nat_alt)
  have lt: "\<exists>v\<in>set (nodesWithEdges g).
      unat (current_length (fst (SSSP_superstep g st) v)) < unat (current_length (st v))"
    using P assms by (simp add: SSSP_progress_def word_less_nat_alt)
  show ?thesis
    unfolding dist_sum_def using le lt by (rule sum_list_strict)
qed

lemma SSSP_loop_returns:
  "\<exists>st' n st_last. SSSP_loop g st it = Some (st', n) \<and> SSSP_superstep g st_last = (st', 0)"
proof (induction "dist_sum (nodesWithEdges g) st" arbitrary: st it rule: less_induct)
  case less
  show ?case
  proof (cases "snd (SSSP_superstep g st) = 0")
    case True
    then have "SSSP_loop g st it = Some (fst (SSSP_superstep g st), it + 1)"
      by (subst SSSP_loop.simps) (simp add: Let_def)
    moreover have "SSSP_superstep g st = (fst (SSSP_superstep g st), 0)"
      using True by (simp add: prod_eq_iff)
    ultimately show ?thesis by blast
  next
    case False
    then have "dist_sum (nodesWithEdges g) (fst (SSSP_superstep g st)) <
        dist_sum (nodesWithEdges g) st"
      by (rule SSSP_superstep_decreases)
    from less [OF this, of "it + 1"] obtain st' n st_last where
      "SSSP_loop g (fst (SSSP_superstep g st)) (it + 1) = Some (st', n)"
      "SSSP_superstep g st_last = (st', 0)"
      by blast
    moreover have "SSSP_loop g st it = SSSP_loop g (fst (SSSP_superstep g st)) (it + 1)"
      using False by (subst SSSP_loop.simps) (simp add: Let_def)
    ultimately show ?thesis by auto
  qed
qed

text \<open>
  C7. The BFS loop comes to an end on every graph and from every state. For an out-edge
  \<open>(s, t)\<close> the operator computes \<open>nd = 1 + dist(t)\<close>; when \<open>nd < dist(s)\<close> it stores
  \<open>nd\<close> in \<open>dist(s)\<close> and counts one unit of work, and otherwise it changes nothing. The
  loop returns after a superstep whose accumulator reads zero. The distances are
  unsigned 32-bit numbers, none grows, and one shrinks in every superstep that counts
  work: their sum over the vertices with edges bounds the number of supersteps.
\<close>

theorem SSSP_go_terminates:
  "(\<exists>st' n st_last. SSSP_go g st = Some (st', n) \<and> SSSP_superstep g st_last = (st', 0)) \<and>
   SSSP_edge s t (st, a) =
     (if 1 + current_length (st t) < current_length (st s)
      then (st(s := (st s)\<lparr>current_length := 1 + current_length (st t)\<rparr>), a + 1)
      else (st, a)) \<and>
   (snd (SSSP_superstep g st) \<noteq> 0 \<longrightarrow>
      dist_sum (nodesWithEdges g) (fst (SSSP_superstep g st)) < dist_sum (nodesWithEdges g) st)"
  unfolding SSSP_go_def
  using SSSP_loop_returns [of g st 0] SSSP_edge_eq [of s t st a] SSSP_superstep_decreases [of g st]
  by blast

lemma SSSP_superstep_path3_1:
  "snd (SSSP_superstep path3 path3_start) \<noteq> 0"
  by (simp add: SSSP_superstep_def do_all_def SSSP_op_def SSSP_edge_eq path3_def
      path3_start_def zero_node_def infinity_def)

theorem SSSP_go_terminates_witness:
  "(\<exists>st' n. SSSP_go path3 path3_start = Some (st', n)) \<and>
   dist_sum (nodesWithEdges path3) (fst (SSSP_superstep path3 path3_start)) <
     dist_sum (nodesWithEdges path3) path3_start"
  using SSSP_go_terminates [of path3 path3_start 0 0 0] SSSP_superstep_path3_1
  by blast

subsection \<open>The loops of the three phases\<close>

lemmas SSSP_path3_eval = SSSP_superstep_def do_all_def SSSP_op_def SSSP_edge_eq path3_def
  path3_start_def zero_node_def infinity_def Let_def



lemma NumShortestPathsChanges_nd_Inr: "\<exists>d. NumShortestPathsChanges_nd li nd = Inr d"
  by (auto simp: NumShortestPathsChanges_nd_def Let_def)













subsection \<open>PredAndSucc\<close>

lemma PredAndSucc_edge_fields:
  "current_length (PredAndSucc_edge s t st v) = current_length (st v)"
  "num_predecessors (PredAndSucc_edge s t st v) =
     num_predecessors (st v) + (if dag_edge st s t \<and> v = s then 1 else 0)"
  "num_successors (PredAndSucc_edge s t st v) =
     num_successors (st v) + (if dag_edge st s t \<and> v = t then 1 else 0)"
  by (simp_all add: PredAndSucc_edge_def dag_edge_def Galois_add_def Let_def)

lemma PredAndSucc_edges_fold:
  assumes "\<forall>v. current_length (st v) = current_length (st0 v)"
  shows "(\<forall>v. current_length (fold (PredAndSucc_edge s) es st v) = current_length (st0 v)) \<and>
    (\<forall>v. num_predecessors (fold (PredAndSucc_edge s) es st v) =
       num_predecessors (st v) +
       of_nat (length (filter (\<lambda>e. fst e = v) (map (Pair s) (filter (dag_edge st0 s) es))))) \<and>
    (\<forall>v. num_successors (fold (PredAndSucc_edge s) es st v) =
       num_successors (st v) +
       of_nat (length (filter (\<lambda>e. snd e = v) (map (Pair s) (filter (dag_edge st0 s) es)))))"
  using assms
proof (induction es arbitrary: st)
  case Nil
  then show ?case by simp
next
  case (Cons t es)
  let ?st1 = "PredAndSucc_edge s t st"
  have d1: "\<forall>v. current_length (?st1 v) = current_length (st0 v)"
    using Cons.prems by (simp add: PredAndSucc_edge_fields)
  have same: "dag_edge st s t = dag_edge st0 s t"
    using Cons.prems by (simp add: dag_edge_def)
  note IH = Cons.IH [OF d1]
  show ?case
  proof (intro conjI allI)
    fix v
    show "current_length (fold (PredAndSucc_edge s) (t # es) st v) = current_length (st0 v)"
      using IH by simp
    show "num_predecessors (fold (PredAndSucc_edge s) (t # es) st v) =
       num_predecessors (st v) +
       of_nat (length (filter (\<lambda>e. fst e = v) (map (Pair s) (filter (dag_edge st0 s) (t # es)))))"
      using IH same by (simp add: PredAndSucc_edge_fields)
    show "num_successors (fold (PredAndSucc_edge s) (t # es) st v) =
       num_successors (st v) +
       of_nat (length (filter (\<lambda>e. snd e = v) (map (Pair s) (filter (dag_edge st0 s) (t # es)))))"
      using IH same by (simp add: PredAndSucc_edge_fields)
  qed
qed

lemma PredAndSucc_op_effect:
  assumes "\<forall>v. current_length (st v) = current_length (st0 v)"
  shows "(\<forall>v. current_length (PredAndSucc_op infinity g s st v) = current_length (st0 v)) \<and>
    (\<forall>v. num_predecessors (PredAndSucc_op infinity g s st v) =
       num_predecessors (st v) +
       of_nat (length (filter (\<lambda>e. fst e = v) (dag_edges_of g st0 s)))) \<and>
    (\<forall>v. num_successors (PredAndSucc_op infinity g s st v) =
       num_successors (st v) +
       of_nat (length (filter (\<lambda>e. snd e = v) (dag_edges_of g st0 s))))"
proof (cases "current_length (st0 s) \<noteq> infinity")
  case True
  then have "PredAndSucc_op infinity g s st = fold (PredAndSucc_edge s) (edges g s) st"
    using assms by (simp add: PredAndSucc_op_def)
  moreover have "dag_edges_of g st0 s = map (Pair s) (filter (dag_edge st0 s) (edges g s))"
    using True by (simp add: dag_edges_of_def)
  ultimately show ?thesis
    using PredAndSucc_edges_fold [OF assms, of s "edges g s"] by simp
next
  case False
  then have "PredAndSucc_op infinity g s st = st"
    using assms by (simp add: PredAndSucc_op_def)
  moreover have "dag_edges_of g st0 s = []"
    using False by (simp add: dag_edges_of_def)
  ultimately show ?thesis using assms by simp
qed

lemma PredAndSucc_nodes_fold:
  assumes "\<forall>v. current_length (st v) = current_length (st0 v)"
  shows "(\<forall>v. current_length (fold (PredAndSucc_op infinity g) ns st v) = current_length (st0 v)) \<and>
    (\<forall>v. num_predecessors (fold (PredAndSucc_op infinity g) ns st v) =
       num_predecessors (st v) +
       of_nat (length (filter (\<lambda>e. fst e = v) (concat (map (dag_edges_of g st0) ns))))) \<and>
    (\<forall>v. num_successors (fold (PredAndSucc_op infinity g) ns st v) =
       num_successors (st v) +
       of_nat (length (filter (\<lambda>e. snd e = v) (concat (map (dag_edges_of g st0) ns)))))"
  using assms
proof (induction ns arbitrary: st)
  case Nil
  then show ?case by simp
next
  case (Cons n ns)
  note E = PredAndSucc_op_effect [OF Cons.prems, of g n]
  from E have d1: "\<forall>v. current_length (PredAndSucc_op infinity g n st v) = current_length (st0 v)"
    by blast
  note IH = Cons.IH [OF d1]
  show ?case
  proof (intro conjI allI)
    fix v
    show "current_length (fold (PredAndSucc_op infinity g) (n # ns) st v) = current_length (st0 v)"
      using IH by simp
    show "num_predecessors (fold (PredAndSucc_op infinity g) (n # ns) st v) =
       num_predecessors (st v) +
       of_nat (length (filter (\<lambda>e. fst e = v) (concat (map (dag_edges_of g st0) (n # ns)))))"
      using IH E by (simp add: add.assoc)
    show "num_successors (fold (PredAndSucc_op infinity g) (n # ns) st v) =
       num_successors (st v) +
       of_nat (length (filter (\<lambda>e. snd e = v) (concat (map (dag_edges_of g st0) (n # ns)))))"
      using IH E by (simp add: add.assoc)
  qed
qed

lemma sum_list_indicator:
  "distinct ns \<Longrightarrow> a \<in> set ns \<Longrightarrow> sum_list (map (\<lambda>v. if a = v then 1 else 0 :: nat) ns) = 1"
proof (induction ns)
  case Nil
  then show ?case by simp
next
  case (Cons n ns)
  show ?case
  proof (cases "a = n")
    case True
    with Cons.prems have "a \<notin> set ns" by simp
    then have "sum_list (map (\<lambda>v. if a = v then 1 else 0 :: nat) ns) = 0"
      by (induction ns) auto
    with True show ?thesis by simp
  next
    case False
    with Cons show ?thesis by simp
  qed
qed

lemma sum_list_filter_count:
  assumes "distinct ns" "\<forall>e\<in>set es. f e \<in> set ns"
  shows "sum_list (map (\<lambda>v. length (filter (\<lambda>e. f e = v) es)) ns) = length es"
  using assms(2)
proof (induction es)
  case Nil
  then show ?case by simp
next
  case (Cons e es)
  have "sum_list (map (\<lambda>v. length (filter (\<lambda>e. f e = v) (e # es))) ns) =
        sum_list (map (\<lambda>v. (if f e = v then 1 else 0) + length (filter (\<lambda>e. f e = v) es)) ns)"
    by (intro arg_cong [where f = sum_list] map_cong) auto
  also have "\<dots> = sum_list (map (\<lambda>v. if f e = v then 1 else 0) ns) +
        sum_list (map (\<lambda>v. length (filter (\<lambda>e. f e = v) es)) ns)"
    by (simp add: sum_list_addf)
  also have "\<dots> = 1 + length es"
    using Cons assms(1) by (simp add: sum_list_indicator)
  finally show ?case by simp
qed

lemma dag_edges_endpoints:
  assumes "e \<in> set (dag_edges g st)"
  shows "fst e \<in> set (nodesWithEdges g) \<and> snd e \<in> set (edges g (fst e))"
  using assms by (auto simp: dag_edges_def dag_edges_of_def split: if_splits)

text \<open>
  C5. \<open>PredAndSucc\<close> leaves every distance as it is. It adds to \<open>npred(v)\<close> the number
  of DAG edges \<open>(v, t)\<close> and to \<open>nsucc(v)\<close> the number of DAG edges \<open>(s, v)\<close>, where a DAG
  edge is an out-edge \<open>(s, t)\<close> of a vertex with \<open>dist(s) \<noteq> INF\<close> and
  \<open>dist(t) + 1 = dist(s)\<close>; no other edge adds anything. When the phase starts with
  \<open>npred = nsucc = 0\<close> on all vertices of a graph whose vertices are listed once and
  whose edges stay inside it, and the DAG has fewer than \<open>2^32\<close> edges, the sum of
  \<open>npred\<close> and the sum of \<open>nsucc\<close> over all vertices both equal the number of DAG edges.
\<close>

theorem PredAndSucc_counts:
  "(\<forall>v. current_length (PredAndSucc_go g st v) = current_length (st v) \<and>
        num_predecessors (PredAndSucc_go g st v) =
          num_predecessors (st v) +
          of_nat (length (filter (\<lambda>e. fst e = v) (dag_edges g st))) \<and>
        num_successors (PredAndSucc_go g st v) =
          num_successors (st v) +
          of_nat (length (filter (\<lambda>e. snd e = v) (dag_edges g st)))) \<and>
   (distinct (allNodes g) \<and> set (nodesWithEdges g) \<subseteq> set (allNodes g) \<and>
    (\<forall>s\<in>set (nodesWithEdges g). set (edges g s) \<subseteq> set (allNodes g)) \<and>
    (\<forall>v\<in>set (allNodes g). num_predecessors (st v) = 0 \<and> num_successors (st v) = 0) \<and>
    length (dag_edges g st) < 2 ^ 32 \<longrightarrow>
      sum_list (map (\<lambda>v. unat (num_predecessors (PredAndSucc_go g st v))) (allNodes g)) =
        length (dag_edges g st) \<and>
      sum_list (map (\<lambda>v. unat (num_successors (PredAndSucc_go g st v))) (allNodes g)) =
        length (dag_edges g st))"
proof (intro conjI impI)
  have F: "(\<forall>v. current_length (PredAndSucc_go g st v) = current_length (st v)) \<and>
    (\<forall>v. num_predecessors (PredAndSucc_go g st v) =
       num_predecessors (st v) + of_nat (length (filter (\<lambda>e. fst e = v) (dag_edges g st)))) \<and>
    (\<forall>v. num_successors (PredAndSucc_go g st v) =
       num_successors (st v) + of_nat (length (filter (\<lambda>e. snd e = v) (dag_edges g st))))"
    unfolding PredAndSucc_go_def do_all_def dag_edges_def
    by (rule PredAndSucc_nodes_fold) simp
  then show "\<forall>v. current_length (PredAndSucc_go g st v) = current_length (st v) \<and>
        num_predecessors (PredAndSucc_go g st v) =
          num_predecessors (st v) +
          of_nat (length (filter (\<lambda>e. fst e = v) (dag_edges g st))) \<and>
        num_successors (PredAndSucc_go g st v) =
          num_successors (st v) +
          of_nat (length (filter (\<lambda>e. snd e = v) (dag_edges g st)))"
    by blast
  assume H: "distinct (allNodes g) \<and> set (nodesWithEdges g) \<subseteq> set (allNodes g) \<and>
    (\<forall>s\<in>set (nodesWithEdges g). set (edges g s) \<subseteq> set (allNodes g)) \<and>
    (\<forall>v\<in>set (allNodes g). num_predecessors (st v) = 0 \<and> num_successors (st v) = 0) \<and>
    length (dag_edges g st) < 2 ^ 32"
  have small: "\<And>P. unat (of_nat (length (filter P (dag_edges g st))) :: 32 word) =
      length (filter P (dag_edges g st))"
  proof -
    fix P
    have "length (filter P (dag_edges g st)) \<le> length (dag_edges g st)" by simp
    with H have "length (filter P (dag_edges g st)) < 2 ^ 32" by linarith
    then show "unat (of_nat (length (filter P (dag_edges g st))) :: 32 word) =
      length (filter P (dag_edges g st))"
      by (intro of_nat_inverse [OF refl]) simp
  qed
  have src_in: "\<forall>e\<in>set (dag_edges g st). fst e \<in> set (allNodes g)"
    using H dag_edges_endpoints by blast
  have dst_in: "\<forall>e\<in>set (dag_edges g st). snd e \<in> set (allNodes g)"
    using H dag_edges_endpoints by blast
  have "sum_list (map (\<lambda>v. unat (num_predecessors (PredAndSucc_go g st v))) (allNodes g)) =
      sum_list (map (\<lambda>v. length (filter (\<lambda>e. fst e = v) (dag_edges g st))) (allNodes g))"
    using F H small by (intro arg_cong [where f = sum_list] map_cong) auto
  also have "\<dots> = length (dag_edges g st)"
    using H src_in by (intro sum_list_filter_count) auto
  finally show "sum_list (map (\<lambda>v. unat (num_predecessors (PredAndSucc_go g st v))) (allNodes g)) =
      length (dag_edges g st)" .
  have "sum_list (map (\<lambda>v. unat (num_successors (PredAndSucc_go g st v))) (allNodes g)) =
      sum_list (map (\<lambda>v. length (filter (\<lambda>e. snd e = v) (dag_edges g st))) (allNodes g))"
    using F H small by (intro arg_cong [where f = sum_list] map_cong) auto
  also have "\<dots> = length (dag_edges g st)"
    using H dst_in by (intro sum_list_filter_count) auto
  finally show "sum_list (map (\<lambda>v. unat (num_successors (PredAndSucc_go g st v))) (allNodes g)) =
      length (dag_edges g st)" .
qed

lemma dag_edges_tail_diamond:
  "dag_edges tail_diamond bfs_done = [(1, 0), (2, 1), (3, 1), (4, 2), (4, 3)]"
  by (simp add: dag_edges_def dag_edges_of_def dag_edge_def tail_diamond_def bfs_done_def
      zero_node_def infinity_def)

theorem PredAndSucc_counts_witness:
  "sum_list (map (\<lambda>v. unat (num_predecessors (PredAndSucc_go tail_diamond bfs_done v)))
      (allNodes tail_diamond)) = 5 \<and>
   sum_list (map (\<lambda>v. unat (num_successors (PredAndSucc_go tail_diamond bfs_done v)))
      (allNodes tail_diamond)) = 5 \<and>
   num_predecessors (PredAndSucc_go tail_diamond bfs_done 4) = 2 \<and>
   num_successors (PredAndSucc_go tail_diamond bfs_done 1) = 2"
proof -
  have H: "distinct (allNodes tail_diamond) \<and>
    set (nodesWithEdges tail_diamond) \<subseteq> set (allNodes tail_diamond) \<and>
    (\<forall>s\<in>set (nodesWithEdges tail_diamond). set (edges tail_diamond s) \<subseteq> set (allNodes tail_diamond)) \<and>
    (\<forall>v\<in>set (allNodes tail_diamond).
        num_predecessors (bfs_done v) = 0 \<and> num_successors (bfs_done v) = 0) \<and>
    length (dag_edges tail_diamond bfs_done) < 2 ^ 32"
    unfolding dag_edges_tail_diamond
    by (simp add: tail_diamond_def bfs_done_def zero_node_def)
  note T = PredAndSucc_counts [of tail_diamond bfs_done]
  have a: "num_predecessors (PredAndSucc_go tail_diamond bfs_done 4) = 2"
    and b: "num_successors (PredAndSucc_go tail_diamond bfs_done 1) = 2"
    using T by (simp_all add: dag_edges_tail_diamond bfs_done_def zero_node_def)
  from T H have "sum_list (map (\<lambda>v. unat (num_predecessors (PredAndSucc_go tail_diamond bfs_done v)))
      (allNodes tail_diamond)) = length (dag_edges tail_diamond bfs_done) \<and>
    sum_list (map (\<lambda>v. unat (num_successors (PredAndSucc_go tail_diamond bfs_done v)))
      (allNodes tail_diamond)) = length (dag_edges tail_diamond bfs_done)"
    by blast
  with a b show ?thesis by (simp add: dag_edges_tail_diamond)
qed

subsection \<open>What the phases leave of \<open>betweeness_centrality\<close> and \<open>dependency\<close>\<close>

lemma steady_refl: "steady st st"
  by (simp add: steady_def steady_nd_def)

lemma steady_trans: "steady a b \<Longrightarrow> steady b c \<Longrightarrow> steady a c"
  by (auto simp: steady_def steady_nd_def intro: order_trans)

lemma steady_upd: "steady_nd (st n) d \<Longrightarrow> steady st (st(n := d))"
  by (simp add: steady_def steady_nd_def)

lemma steady_fold:
  assumes "\<And>n s. steady s (f n s)"
  shows "steady st (fold f ns st)"
proof (induction ns arbitrary: st)
  case Nil
  then show ?case by (simp add: steady_refl)
next
  case (Cons n ns)
  have "steady st (f n st)" by (rule assms)
  moreover have "steady (f n st) (fold f ns (f n st))" by (rule Cons.IH)
  ultimately show ?case by (simp add: steady_trans)
qed

lemma steady_fold_fst:
  assumes "\<And>n sa. steady (fst sa) (fst (f n sa))"
  shows "steady (fst sa) (fst (fold f ns sa))"
proof (induction ns arbitrary: sa)
  case Nil
  then show ?case by (simp add: steady_refl)
next
  case (Cons n ns)
  have "steady (fst sa) (fst (f n sa))" by (rule assms)
  moreover have "steady (fst (f n sa)) (fst (fold f ns (f n sa)))" by (rule Cons.IH)
  ultimately show ?case by (simp add: steady_trans)
qed

lemma steady_do_all_err:
  assumes "\<And>n s s'. f n s = Inr s' \<Longrightarrow> steady s s'"
  shows "do_all_err f ns st = Inr st' \<Longrightarrow> steady st st'"
proof (induction ns arbitrary: st)
  case Nil
  then show ?case by (simp add: steady_refl)
next
  case (Cons n ns)
  from Cons.prems obtain s1 where s1: "f n st = Inr s1" and rest: "do_all_err f ns s1 = Inr st'"
    by (auto split: sum.splits)
  have "steady st s1" using s1 by (rule assms)
  moreover have "steady s1 st'" using rest by (rule Cons.IH)
  ultimately show ?case by (rule steady_trans)
qed

lemma steady_do_all_err_fst:
  assumes "\<And>n s s'. f n s = Inr s' \<Longrightarrow> steady (fst s) (fst s')"
  shows "do_all_err f ns sa = Inr sa' \<Longrightarrow> steady (fst sa) (fst sa')"
proof (induction ns arbitrary: sa)
  case Nil
  then show ?case by (simp add: steady_refl)
next
  case (Cons n ns)
  from Cons.prems obtain s1 where s1: "f n sa = Inr s1" and rest: "do_all_err f ns s1 = Inr sa'"
    by (auto split: sum.splits)
  have "steady (fst sa) (fst s1)" using s1 by (rule assms)
  moreover have "steady (fst s1) (fst sa')" using rest by (rule Cons.IH)
  ultimately show ?case by (rule steady_trans)
qed

lemma steady_InitializeIteration:
  "InitializeIteration_go g s st = Inr st' \<Longrightarrow> steady st st'"
  unfolding InitializeIteration_go_def
proof (rule steady_do_all_err)
  fix n s1 s2
  assume "InitializeIteration_op infinity s g n s1 = Inr s2"
  then show "steady s1 s2"
    by (auto simp: InitializeIteration_op_Inr InitializeIteration_nd_Inr steady_nd_def
        intro!: steady_upd)
qed

lemma steady_SSSP_superstep: "steady st (fst (SSSP_superstep g st))"
proof -
  have edge: "\<And>s t sa. steady (fst sa) (fst (SSSP_edge s t sa))"
  proof -
    fix s t and sa :: "State \<times> 32 word"
    show "steady (fst sa) (fst (SSSP_edge s t sa))"
      by (cases sa) (auto simp: SSSP_edge_eq steady_refl steady_nd_def intro!: steady_upd)
  qed
  have op: "\<And>n sa. steady (fst sa) (fst (SSSP_op g n sa))"
    unfolding SSSP_op_def by (rule steady_fold_fst) (rule edge)
  have "steady (fst (st, 0 :: 32 word)) (fst (fold (SSSP_op g) (nodesWithEdges g) (st, 0)))"
    by (rule steady_fold_fst) (rule op)
  then show ?thesis by (simp add: SSSP_superstep_def do_all_def)
qed

lemma steady_SSSP_loop:
  assumes "SSSP_loop g st i = Some r"
  shows "steady st (fst r)"
proof (rule SSSP_loop.raw_induct [where P = "\<lambda>g st i r. steady st (fst r)", OF _ assms])
  fix loop g st i r
  assume IH: "\<And>g st i r. loop g st i = Some r \<Longrightarrow> steady st (fst r)"
    and body: "(let r = SSSP_superstep g st; iterations' = i + 1; accum_result = snd r
      in if accum_result \<noteq> 0 then loop g (fst r) iterations'
         else Some (fst r, iterations')) = Some r"
  show "steady st (fst r)"
  proof (cases "snd (SSSP_superstep g st) = 0")
    case True
    with body have "fst r = fst (SSSP_superstep g st)" by (auto simp: Let_def)
    then show ?thesis by (simp add: steady_SSSP_superstep)
  next
    case False
    with body have "loop g (fst (SSSP_superstep g st)) (i + 1) = Some r" by (simp add: Let_def)
    then have "steady (fst (SSSP_superstep g st)) (fst r)" by (rule IH)
    with steady_SSSP_superstep [of st g] show ?thesis by (rule steady_trans)
  qed
qed

lemma steady_PredAndSucc: "steady st (PredAndSucc_go g st)"
  unfolding PredAndSucc_go_def do_all_def
proof (rule steady_fold)
  fix n s
  have edge: "\<And>t s1. steady s1 (PredAndSucc_edge n t s1)"
    by (simp add: steady_def steady_nd_def PredAndSucc_edge_def Let_def)
  show "steady s (PredAndSucc_op infinity g n s)"
    unfolding PredAndSucc_op_def
    by (simp add: steady_refl steady_fold [where f = "PredAndSucc_edge n", OF edge])
qed

lemma steady_NumShortestPaths_round:
  assumes "NumShortestPaths_round g st = Inr r"
  shows "steady st (fst r)"
proof -
  let ?r1 = "do_all (NumShortestPaths_op infinity g) (nodesWithEdges g) (st, 0)"
  let ?st2 = "NSPTrim_go g (fst ?r1)"
  let ?st3 = "NSPAdd_go g ?st2"
  have edge: "\<And>s t sa. steady (fst sa) (fst (NumShortestPaths_edge s t sa))"
    by (simp add: steady_def steady_nd_def NumShortestPaths_edge_def Let_def)
  have op: "\<And>n sa. steady (fst sa) (fst (NumShortestPaths_op infinity g n sa))"
    unfolding NumShortestPaths_op_def
    by (simp add: steady_refl steady_fold_fst [where f = "NumShortestPaths_edge _", OF edge])
  have "steady (fst (st, 0 :: 32 word)) (fst ?r1)"
    unfolding do_all_def by (rule steady_fold_fst) (rule op)
  then have a: "steady st (fst ?r1)" by simp
  have b: "steady (fst ?r1) ?st2"
    unfolding NSPTrim_go_def do_all_def
    by (rule steady_fold) (simp add: steady_def steady_nd_def NSPTrim_nd_def)
  have c: "steady ?st2 ?st3"
    unfolding NSPAdd_go_def do_all_def
    by (rule steady_fold) (simp add: steady_def steady_nd_def NSPAdd_nd_def)
  from assms have d: "NumShortestPathsChanges_go g ?st3 = Inr (fst r)"
    by (auto simp: NumShortestPaths_round_def Let_def split: sum.splits)
  have "steady ?st3 (fst r)"
    using d unfolding NumShortestPathsChanges_go_def
  proof (rule steady_do_all_err [rotated])
    fix n s s'
    assume "NumShortestPathsChanges_op infinity n s = Inr s'"
    then show "steady s s'"
      by (auto simp: NumShortestPathsChanges_op_def NumShortestPathsChanges_nd_def Let_def
          steady_nd_def steady_refl split: sum.splits if_splits intro!: steady_upd)
  qed
  with a b c show ?thesis by (blast intro: steady_trans)
qed

lemma steady_NumShortestPaths_loop:
  assumes "NumShortestPaths_loop g st i = Some (Inr r)"
  shows "steady st (fst r)"
proof -
  have "case (Inr r :: error + State \<times> 32 word) of
      Inl e \<Rightarrow> True | Inr r \<Rightarrow> steady st (fst r)"
  proof (rule NumShortestPaths_loop.raw_induct
      [where P = "\<lambda>g st i y. case y of Inl e \<Rightarrow> True | Inr r \<Rightarrow> steady st (fst r)", OF _ assms])
    fix loop g st i y
    assume IH: "\<And>g st i y. loop g st i = Some y \<Longrightarrow>
        (case y of Inl e \<Rightarrow> True | Inr r \<Rightarrow> steady st (fst r))"
      and body: "(case NumShortestPaths_round g st of
          Inl e \<Rightarrow> Some (Inl e)
        | Inr r \<Rightarrow>
            (let iterations' = i + 1; accum_result = snd r
             in if accum_result \<noteq> 0 then loop g (fst r) iterations'
                else Some (Inr (fst r, iterations')))) = Some y"
    show "case y of Inl e \<Rightarrow> True | Inr r \<Rightarrow> steady st (fst r)"
    proof (cases "NumShortestPaths_round g st")
      case (Inl e)
      with body show ?thesis by auto
    next
      case (Inr r1)
      then have s1: "steady st (fst r1)" by (rule steady_NumShortestPaths_round)
      show ?thesis
      proof (cases "snd r1 = 0")
        case True
        with Inr body have "y = Inr (fst r1, i + 1)" by (simp add: Let_def)
        with s1 show ?thesis by simp
      next
        case False
        with Inr body have "loop g (fst r1) (i + 1) = Some y" by (simp add: Let_def)
        from IH [OF this] s1 show ?thesis
          by (auto split: sum.splits intro: steady_trans)
      qed
    qed
  qed
  then show ?thesis by simp
qed
lemma steady_DependencyPropogation_op:
  assumes "DependencyPropogation_op li s g n sa = Inr sa'"
  shows "steady (fst sa) (fst sa')"
proof -
  have edge: "\<And>t sb. steady (fst sb) (fst (DependencyPropogation_edge s g n t sb))"
    by (simp add: steady_def steady_nd_def DependencyPropogation_edge_def Let_def)
  have fold: "\<And>es. steady (fst sa) (fst (fold (DependencyPropogation_edge s g n) es sa))"
    by (rule steady_fold_fst) (rule edge)
  show ?thesis
  proof (cases "current_length (fst sa n) \<noteq> li \<and> propogation_flag (fst sa n)")
    case False
    with assms have "sa' = sa" by (auto simp: DependencyPropogation_op_def split: if_splits)
    then show ?thesis by (simp add: steady_refl)
  next
    case True
    let ?r = "fold (DependencyPropogation_edge s g n) (edges g n) sa"
    from True assms obtain d where
      sa': "fst sa' = (fst ?r)(n := d)" and
      d: "steady_nd (fst ?r n) d"
      by (auto simp: DependencyPropogation_op_def Let_def steady_nd_def split: if_splits)
    have "steady (fst ?r) (fst sa')"
      unfolding sa' using d by (rule steady_upd)
    with fold [of "edges g n"] show ?thesis by (rule steady_trans)
  qed
qed

lemma steady_DependencyPropogation_round:
  assumes "DependencyPropogation_round g s st = Inr r"
  shows "steady st (fst r)"
proof -
  from assms obtain r1 where
    r1: "do_all_err (DependencyPropogation_op infinity s g) (nodesWithEdges g) (st, 0) = Inr r1"
    and r: "fst r = DependencyPropChanges_go g (DPAdd_go g (DPTrim_go g (fst r1)))"
    by (auto simp: DependencyPropogation_round_def Let_def split: sum.splits)
  have "steady (fst (st, 0 :: 32 word)) (fst r1)"
    using r1
  proof (rule steady_do_all_err_fst [rotated])
    fix n sa sa'
    assume "DependencyPropogation_op infinity s g n sa = Inr sa'"
    then show "steady (fst sa) (fst sa')" by (rule steady_DependencyPropogation_op)
  qed
  then have a: "steady st (fst r1)" by simp
  have b: "steady (fst r1) (DPTrim_go g (fst r1))"
    unfolding DPTrim_go_def do_all_def
    by (rule steady_fold) (simp add: steady_def steady_nd_def DPTrim_nd_def)
  have c: "steady (DPTrim_go g (fst r1)) (DPAdd_go g (DPTrim_go g (fst r1)))"
    unfolding DPAdd_go_def do_all_def
    by (rule steady_fold) (simp add: steady_def steady_nd_def DPAdd_nd_def)
  have d: "steady (DPAdd_go g (DPTrim_go g (fst r1)))
      (DependencyPropChanges_go g (DPAdd_go g (DPTrim_go g (fst r1))))"
    unfolding DependencyPropChanges_go_def do_all_def
    by (rule steady_fold) (simp add: steady_def steady_nd_def DependencyPropChanges_nd_def)
  from a b c d show ?thesis unfolding r by (blast intro: steady_trans)
qed

lemma steady_DependencyPropogation_loop:
  assumes "DependencyPropogation_loop g s st i = Some (Inr r)"
  shows "steady st (fst r)"
proof -
  have "case (Inr r :: error + State \<times> 32 word) of
      Inl e \<Rightarrow> True | Inr r \<Rightarrow> steady st (fst r)"
  proof (rule DependencyPropogation_loop.raw_induct
      [where P = "\<lambda>g s st i y. case y of Inl e \<Rightarrow> True | Inr r \<Rightarrow> steady st (fst r)",
       OF _ assms])
    fix loop g s st i y
    assume IH: "\<And>g s st i y. loop g s st i = Some y \<Longrightarrow>
        (case y of Inl e \<Rightarrow> True | Inr r \<Rightarrow> steady st (fst r))"
      and body: "(case DependencyPropogation_round g s st of
          Inl e \<Rightarrow> Some (Inl e)
        | Inr r \<Rightarrow>
            (let iterations' = i + 1; accum_result = snd r
             in if accum_result \<noteq> 0 then loop g s (fst r) iterations'
                else Some (Inr (fst r, iterations')))) = Some y"
    show "case y of Inl e \<Rightarrow> True | Inr r \<Rightarrow> steady st (fst r)"
    proof (cases "DependencyPropogation_round g s st")
      case (Inl e)
      with body show ?thesis by auto
    next
      case (Inr r1)
      then have s1: "steady st (fst r1)" by (rule steady_DependencyPropogation_round)
      show ?thesis
      proof (cases "snd r1 = 0")
        case True
        with Inr body have "y = Inr (fst r1, i + 1)" by (simp add: Let_def)
        with s1 show ?thesis by simp
      next
        case False
        with Inr body have "loop g s (fst r1) (i + 1) = Some y" by (simp add: Let_def)
        from IH [OF this] s1 show ?thesis
          by (auto split: sum.splits intro: steady_trans)
      qed
    qed
  qed
  then show ?thesis by simp
qed

lemma BC_iteration_Inr:
  assumes "BC_iteration g s st = Some (Inr st')"
  shows "\<exists>st5. steady st st5 \<and> st' = do_all BC_op (allNodes g) st5"
proof -
  from assms obtain st1 r2 r4 r5 where
    a: "InitializeIteration_go g s st = Inr st1" and
    b: "SSSP_go g st1 = Some r2" and
    c: "NumShortestPaths_go g (PredAndSucc_go g (fst r2)) = Some (Inr r4)" and
    d: "DependencyPropogation_go g s (fst r4) = Some (Inr r5)" and
    e: "st' = do_all BC_op (allNodes g) (fst r5)"
    by (auto simp: BC_iteration_def Let_def split: sum.splits option.splits)
  have "steady st st1" using a by (rule steady_InitializeIteration)
  moreover have "steady st1 (fst r2)"
    using b unfolding SSSP_go_def by (rule steady_SSSP_loop)
  moreover have "steady (fst r2) (PredAndSucc_go g (fst r2))" by (rule steady_PredAndSucc)
  moreover have "steady (PredAndSucc_go g (fst r2)) (fst r4)"
    using c unfolding NumShortestPaths_go_def by (rule steady_NumShortestPaths_loop)
  moreover have "steady (fst r4) (fst r5)"
    using d unfolding DependencyPropogation_go_def by (rule steady_DependencyPropogation_loop)
  ultimately have "steady st (fst r5)" by (blast intro: steady_trans)
  with e show ?thesis by blast
qed

lemma BC_nd_idem: "BC_nd (BC_nd d) = BC_nd d"
  by (simp add: BC_nd_def)

lemma BC_do_all:
  "do_all BC_op ns st v = (if v \<in> set ns then BC_nd (st v) else st v)"
  unfolding do_all_def
proof (induction ns arbitrary: st)
  case Nil
  then show ?case by simp
next
  case (Cons n ns)
  have "fold BC_op (n # ns) st v = fold BC_op ns (BC_op n st) v" by simp
  also have "\<dots> = (if v \<in> set ns then BC_nd (BC_op n st v) else BC_op n st v)"
    by (rule Cons.IH)
  also have "\<dots> = (if v \<in> set (n # ns) then BC_nd (st v) else st v)"
    by (simp add: BC_op_def BC_nd_idem)
  finally show ?case .
qed

lemma InitializeGraph_fold:
  "fold InitializeGraph_op ns st v = (if v \<in> set ns then InitializeGraph_nd (st v) else st v)"
proof (induction ns arbitrary: st)
  case Nil
  then show ?case by simp
next
  case (Cons n ns)
  have "fold InitializeGraph_op (n # ns) st v = fold InitializeGraph_op ns (InitializeGraph_op n st) v"
    by simp
  also have "\<dots> = (if v \<in> set ns then InitializeGraph_nd (InitializeGraph_op n st v)
      else InitializeGraph_op n st v)"
    by (rule Cons.IH)
  also have "\<dots> = (if v \<in> set (n # ns) then InitializeGraph_nd (st v) else st v)"
    by (simp add: InitializeGraph_op_def InitializeGraph_nd_def)
  finally show ?case .
qed

lemma BC_iteration_bc_mono:
  assumes "BC_iteration g s st = Some (Inr st')"
  shows "betweeness_centrality (st v) \<le> betweeness_centrality (st' v)"
proof -
  from BC_iteration_Inr [OF assms] obtain st5 where
    s: "steady st st5" and e: "st' = do_all BC_op (allNodes g) st5"
    by blast
  have "betweeness_centrality (st5 v) \<le> betweeness_centrality (st' v)"
    unfolding e by (simp add: BC_do_all BC_nd_def)
  with s show ?thesis by (simp add: steady_def steady_nd_def)
qed

lemma BC_go_loop_bc_mono:
  "BC_go_loop cfg g rs loop_end i st = Some (Inr st') \<Longrightarrow>
     betweeness_centrality (st v) \<le> betweeness_centrality (st' v)"
proof (induction cfg g rs loop_end i st rule: BC_go_loop.induct)
  case (1 cfg g rs loop_end i st)
  show ?case
  proof (cases "i < loop_end")
    case False
    with "1.prems" have "st' = st" by (simp add: BC_go_loop.simps)
    then show ?thesis by simp
  next
    case True
    with "1.prems" obtain src st1 where
      src: "BC_current_src cfg rs i = Inr src" and
      it: "BC_iteration g src st = Some (Inr st1)" and
      rest: "BC_go_loop cfg g rs loop_end (Suc i) st1 = Some (Inr st')"
      by (subst (asm) BC_go_loop.simps) (auto split: sum.splits option.splits)
    have "betweeness_centrality (st v) \<le> betweeness_centrality (st1 v)"
      using it by (rule BC_iteration_bc_mono)
    moreover have "betweeness_centrality (st1 v) \<le> betweeness_centrality (st' v)"
      by (rule "1.IH" [OF True src it refl rest])
    ultimately show ?thesis by simp
  qed
qed
subsection \<open>One iteration on the path of three vertices\<close>

lemma do_all_pointwise:
  "distinct ns \<Longrightarrow>
     do_all (\<lambda>src s. s(src := f (s src))) ns st = (\<lambda>v. if v \<in> set ns then f (st v) else st v)"
  unfolding do_all_def
proof (induction ns arbitrary: st)
  case Nil
  then show ?case by simp
next
  case (Cons n ns)
  have "fold (\<lambda>src s. s(src := f (s src))) (n # ns) st =
      fold (\<lambda>src s. s(src := f (s src))) ns (st(n := f (st n)))"
    by simp
  also have "\<dots> = (\<lambda>v. if v \<in> set ns then f ((st(n := f (st n))) v) else (st(n := f (st n))) v)"
    using Cons.prems by (intro Cons.IH) simp
  also have "\<dots> = (\<lambda>v. if v \<in> set (n # ns) then f (st v) else st v)"
    using Cons.prems by (auto simp: fun_eq_iff)
  finally show ?case .
qed

lemma NumShortestPathsChanges_pointwise:
  "distinct ns \<Longrightarrow>
     do_all_err (NumShortestPathsChanges_op li) ns st =
       Inr (\<lambda>v. if v \<in> set ns then projr (NumShortestPathsChanges_nd li (st v)) else st v)"
proof (induction ns arbitrary: st)
  case Nil
  then show ?case by simp
next
  case (Cons n ns)
  obtain d where d: "NumShortestPathsChanges_nd li (st n) = Inr d"
    using NumShortestPathsChanges_nd_Inr by blast
  then have "NumShortestPathsChanges_op li n st = Inr (st(n := d))"
    by (simp add: NumShortestPathsChanges_op_def)
  then have "do_all_err (NumShortestPathsChanges_op li) (n # ns) st =
      do_all_err (NumShortestPathsChanges_op li) ns (st(n := d))"
    by simp
  also have "\<dots> = Inr (\<lambda>v. if v \<in> set ns
      then projr (NumShortestPathsChanges_nd li ((st(n := d)) v)) else (st(n := d)) v)"
    using Cons.prems by (intro Cons.IH) simp
  also have "\<dots> = Inr (\<lambda>v. if v \<in> set (n # ns)
      then projr (NumShortestPathsChanges_nd li (st v)) else st v)"
    using Cons.prems d by (auto simp: fun_eq_iff)
  finally show ?case .
qed

lemma NSPTrim_go_pointwise:
  "distinct (allNodes g) \<Longrightarrow>
     NSPTrim_go g st = (\<lambda>v. if v \<in> set (allNodes g) then NSPTrim_nd (st v) else st v)"
  unfolding NSPTrim_go_def by (rule do_all_pointwise)

lemma NSPAdd_go_pointwise:
  "distinct (allNodes g) \<Longrightarrow>
     NSPAdd_go g st = (\<lambda>v. if v \<in> set (allNodes g) then NSPAdd_nd (st v) else st v)"
  unfolding NSPAdd_go_def by (rule do_all_pointwise)

lemma NumShortestPathsChanges_go_pointwise:
  "distinct (allNodes g) \<Longrightarrow>
     NumShortestPathsChanges_go g st =
       Inr (\<lambda>v. if v \<in> set (allNodes g)
                 then projr (NumShortestPathsChanges_nd infinity (st v)) else st v)"
  unfolding NumShortestPathsChanges_go_def by (rule NumShortestPathsChanges_pointwise)

lemma DPTrim_go_pointwise:
  "distinct (allNodes g) \<Longrightarrow>
     DPTrim_go g st = (\<lambda>v. if v \<in> set (allNodes g) then DPTrim_nd (st v) else st v)"
  unfolding DPTrim_go_def by (rule do_all_pointwise)

lemma DPAdd_go_pointwise:
  "distinct (allNodes g) \<Longrightarrow>
     DPAdd_go g st = (\<lambda>v. if v \<in> set (allNodes g) then DPAdd_nd (st v) else st v)"
  unfolding DPAdd_go_def by (rule do_all_pointwise)

lemma DependencyPropChanges_go_pointwise:
  "distinct (nodesWithEdges g) \<Longrightarrow>
     DependencyPropChanges_go g st =
       (\<lambda>v. if v \<in> set (nodesWithEdges g)
            then DependencyPropChanges_nd infinity (st v) else st v)"
  unfolding DependencyPropChanges_go_def by (rule do_all_pointwise)

lemma path3_InitializeGraph: "InitializeGraph_go path3 unreached_state = unreached_state"
  by (rule ext)
    (simp add: InitializeGraph_go_def do_all_def InitializeGraph_fold InitializeGraph_nd_def
      unreached_state_def zero_node_def)

lemma path3_InitializeIteration:
  "InitializeIteration_go path3 0 unreached_state = Inr path3_start"
  by (simp add: InitializeIteration_go_def InitializeIteration_op_def InitializeIteration_nd_def
      path3_def unreached_state_def path3_start_def zero_node_def infinity_def fun_eq_iff)

lemma path3_SSSP: "SSSP_go path3 path3_start = Some (path3_bfs, 3)"
  unfolding SSSP_go_def
  apply (subst SSSP_loop.simps, simp add: SSSP_path3_eval)
  apply (subst SSSP_loop.simps, simp add: SSSP_path3_eval)
  apply (subst SSSP_loop.simps, simp add: SSSP_path3_eval path3_bfs_def fun_eq_iff)
  done

lemma path3_PredAndSucc: "PredAndSucc_go path3 path3_bfs = path3_dag"
  by (simp add: PredAndSucc_go_def PredAndSucc_op_def PredAndSucc_edge_def Galois_add_def
      do_all_def Let_def path3_def path3_bfs_def path3_dag_def zero_node_def infinity_def
      fun_eq_iff)

lemmas sigma_path3_eval = NumShortestPaths_round_def NumShortestPaths_op_def
  NumShortestPaths_edge_def NSPTrim_go_pointwise NSPTrim_nd_def NSPAdd_go_pointwise NSPAdd_nd_def
  NumShortestPathsChanges_go_pointwise NumShortestPathsChanges_nd_def
  Galois_add_def do_all_def Let_def path3_def path3_dag_def zero_node_def infinity_def

lemma path3_NumShortestPaths:
  "NumShortestPaths_go path3 path3_dag = Some (Inr (path3_sigma, 3))"
  unfolding NumShortestPaths_go_def
  apply (subst NumShortestPaths_loop.simps, simp add: sigma_path3_eval)
  apply (subst NumShortestPaths_loop.simps, simp add: sigma_path3_eval)
  apply (subst NumShortestPaths_loop.simps, simp add: sigma_path3_eval path3_sigma_def fun_eq_iff)
  done

lemmas delta_path3_eval = DependencyPropogation_round_def DependencyPropogation_op_def
  DependencyPropogation_edge_def DPTrim_go_pointwise DPTrim_nd_def DPAdd_go_pointwise DPAdd_nd_def
  DependencyPropChanges_go_pointwise DependencyPropChanges_nd_def float_to_uint32_def
  uint32_to_float_def Galois_add_def do_all_def Let_def path3_def path3_sigma_def
  zero_node_def infinity_def

lemma path3_DependencyPropogation:
  "DependencyPropogation_go path3 0 path3_sigma = Some (Inr (path3_delta, 2))"
  unfolding DependencyPropogation_go_def
  apply (subst DependencyPropogation_loop.simps, simp add: delta_path3_eval)
  apply (subst DependencyPropogation_loop.simps,
      simp add: delta_path3_eval path3_delta_def fun_eq_iff)
  done

lemma path3_iteration:
  "BC_iteration path3 0 unreached_state = Some (Inr (do_all BC_op (allNodes path3) path3_delta))"
  by (simp add: BC_iteration_def path3_InitializeIteration path3_SSSP path3_PredAndSucc
      path3_NumShortestPaths path3_DependencyPropogation)

lemma path3_go:
  "BC_go_loop cap1 path3 [] 1 0 unreached_state =
     Some (Inr (do_all BC_op (allNodes path3) path3_delta))"
  apply (subst BC_go_loop.simps)
  apply (simp add: BC_current_src_def cap1_def path3_iteration)
  apply (subst BC_go_loop.simps)
  apply simp
  done
subsection \<open>The score and the dependency across iterations\<close>

lemma InitializeIteration_keeps_dependency:
  "do_all_err (InitializeIteration_op li s g) ns st = Inr st' \<Longrightarrow>
     dependency (st' v) = dependency (st v)"
proof (induction ns arbitrary: st)
  case Nil
  then show ?case by simp
next
  case (Cons n ns)
  from Cons.prems obtain d where
    d: "InitializeIteration_nd li (getGID g n = s) (st n) = Inr d"
    and rest: "do_all_err (InitializeIteration_op li s g) ns (st(n := d)) = Inr st'"
    by (auto simp: InitializeIteration_op_Inr split: sum.splits)
  from d have "dependency d = dependency (st n)"
    by (auto simp: InitializeIteration_nd_Inr)
  with Cons.IH [OF rest] show ?case by (simp split: if_splits)
qed

lemma BC_iteration_dependency_zero:
  assumes "\<forall>v\<in>set (allNodes g). dependency (st v) = 0"
    and "BC_iteration g s st = Some (Inr st')"
  shows "\<forall>v\<in>set (allNodes g). dependency (st' v) = 0"
proof
  fix v assume v: "v \<in> set (allNodes g)"
  from BC_iteration_Inr [OF assms(2)] obtain st5 where
    s: "steady st st5" and e: "st' = do_all BC_op (allNodes g) st5"
    by blast
  from s have "dependency (st v) \<le> dependency (st5 v)"
    by (simp add: steady_def steady_nd_def)
  with assms(1) v have "0 \<le> dependency (st5 v)" by simp
  then show "dependency (st' v) = 0"
    unfolding e using v by (simp add: BC_do_all BC_nd_def)
qed

lemma BC_iteration_dependency_nonneg:
  assumes "\<forall>v. 0 \<le> dependency (st v)"
    and "BC_iteration g s st = Some (Inr st')"
  shows "0 \<le> dependency (st' v)"
proof -
  from BC_iteration_Inr [OF assms(2)] obtain st5 where
    s: "steady st st5" and e: "st' = do_all BC_op (allNodes g) st5"
    by blast
  from s have "dependency (st v) \<le> dependency (st5 v)"
    by (simp add: steady_def steady_nd_def)
  with assms(1) have "0 \<le> dependency (st5 v)"
    by (auto intro: order_trans)
  then show ?thesis
    unfolding e by (simp add: BC_do_all BC_nd_def)
qed

lemma BC_go_loop_dependency_zero:
  "BC_go_loop cfg g rs loop_end i st = Some (Inr st') \<Longrightarrow>
     \<forall>v\<in>set (allNodes g). dependency (st v) = 0 \<Longrightarrow>
     \<forall>v\<in>set (allNodes g). dependency (st' v) = 0"
proof (induction cfg g rs loop_end i st rule: BC_go_loop.induct)
  case (1 cfg g rs loop_end i st)
  show ?case
  proof (cases "i < loop_end")
    case False
    with "1.prems"(1) have "st' = st" by (simp add: BC_go_loop.simps)
    with "1.prems"(2) show ?thesis by simp
  next
    case True
    with "1.prems"(1) obtain src st1 where
      src: "BC_current_src cfg rs i = Inr src" and
      it: "BC_iteration g src st = Some (Inr st1)" and
      rest: "BC_go_loop cfg g rs loop_end (Suc i) st1 = Some (Inr st')"
      by (subst (asm) BC_go_loop.simps) (auto split: sum.splits option.splits)
    have "\<forall>v\<in>set (allNodes g). dependency (st1 v) = 0"
      using "1.prems"(2) it by (rule BC_iteration_dependency_zero)
    then show ?thesis
      by (rule "1.IH" [OF True src it refl rest])
  qed
qed

text \<open>
  C8. Whatever iterations of the driver lead from the state \<open>st\<close> to the state \<open>st'\<close>
  (the iterations \<open>i, \<dots>, loop_end - 1\<close> of \<open>BC::go\<close>), no vertex has a smaller score in
  \<open>st'\<close> than in \<open>st\<close>. Within one iteration the phases up to the \<open>\<delta>\<close>-phase leave every
  score as it is, and the accumulation operator adds \<open>dependency\<close> to the score of a
  vertex exactly when \<open>dependency > 0\<close>, and then sets \<open>dependency\<close> to 0.
\<close>

theorem betweeness_centrality_monotone:
  "(BC_go_loop cfg g rs loop_end i st = Some (Inr st') \<longrightarrow>
      betweeness_centrality (st v) \<le> betweeness_centrality (st' v)) \<and>
   (BC_iteration g s st = Some (Inr st') \<longrightarrow>
      (\<exists>st5. (\<forall>u. betweeness_centrality (st5 u) = betweeness_centrality (st u)) \<and>
             st' = do_all BC_op (allNodes g) st5)) \<and>
   betweeness_centrality (BC_nd d) =
     (if dependency d > 0 then betweeness_centrality d + dependency d
      else betweeness_centrality d) \<and>
   dependency (BC_nd d) = (if dependency d > 0 then 0 else dependency d)"
proof (intro conjI impI)
  assume "BC_go_loop cfg g rs loop_end i st = Some (Inr st')"
  then show "betweeness_centrality (st v) \<le> betweeness_centrality (st' v)"
    by (rule BC_go_loop_bc_mono)
next
  assume "BC_iteration g s st = Some (Inr st')"
  from BC_iteration_Inr [OF this] obtain st5 where
    "steady st st5" "st' = do_all BC_op (allNodes g) st5"
    by blast
  then show "\<exists>st5. (\<forall>u. betweeness_centrality (st5 u) = betweeness_centrality (st u)) \<and>
             st' = do_all BC_op (allNodes g) st5"
    by (auto simp: steady_def steady_nd_def)
qed (simp_all add: BC_nd_def)

theorem betweeness_centrality_monotone_witness:
  "betweeness_centrality (unreached_state 1) \<le>
     betweeness_centrality (do_all BC_op (allNodes path3) path3_delta 1) \<and>
   betweeness_centrality (unreached_state 1) = 0 \<and>
   betweeness_centrality (do_all BC_op (allNodes path3) path3_delta 1) = 1 \<and>
   (\<exists>st5. (\<forall>u. betweeness_centrality (st5 u) = betweeness_centrality (unreached_state u)) \<and>
      do_all BC_op (allNodes path3) path3_delta = do_all BC_op (allNodes path3) st5)"
proof -
  note T = betweeness_centrality_monotone [where cfg = cap1 and g = path3 and rs = "[]"
      and loop_end = 1 and i = 0 and st = unreached_state and s = 0
      and st' = "do_all BC_op (allNodes path3) path3_delta" and v = 1]
  have a: "betweeness_centrality (unreached_state 1) \<le>
     betweeness_centrality (do_all BC_op (allNodes path3) path3_delta 1)"
    using T path3_go by blast
  have b: "\<exists>st5. (\<forall>u. betweeness_centrality (st5 u) = betweeness_centrality (unreached_state u)) \<and>
      do_all BC_op (allNodes path3) path3_delta = do_all BC_op (allNodes path3) st5"
    using T path3_iteration by blast
  have c: "betweeness_centrality (unreached_state 1) = 0"
    by (simp add: unreached_state_def zero_node_def)
  have d: "betweeness_centrality (do_all BC_op (allNodes path3) path3_delta 1) = 1"
    by (simp add: BC_do_all BC_nd_def path3_def path3_delta_def zero_node_def)
  from a b c d show ?thesis by blast
qed

text \<open>
  C10. \<open>InitializeGraph\<close> leaves \<open>dependency = 0\<close> on every vertex, and the state in which
  an iteration of the driver starts, reached from there by the iterations before it (the
  result of the loop run up to that iteration), has \<open>dependency = 0\<close> on every vertex,
  although \<open>InitializeIteration\<close> never writes the field. One iteration keeps
  \<open>dependency = 0\<close> on all vertices: no phase lowers \<open>dependency\<close>, and the accumulation
  operator resets it where it is positive; so it is never negative either.
\<close>

theorem dependency_zero_at_iteration_start:
  "(\<forall>v\<in>set (allNodes g). dependency (InitializeGraph_go g sti v) = 0) \<and>
   (BC_go_loop cfg g rs loop_end 0 (InitializeGraph_go g sti) = Some (Inr st') \<longrightarrow>
      (\<forall>v\<in>set (allNodes g). dependency (st' v) = 0)) \<and>
   ((\<forall>v\<in>set (allNodes g). dependency (st v) = 0) \<and> BC_iteration g s st = Some (Inr sta) \<longrightarrow>
      (\<forall>v\<in>set (allNodes g). dependency (sta v) = 0)) \<and>
   (InitializeIteration_go g s st = Inr stb \<longrightarrow> (\<forall>v. dependency (stb v) = dependency (st v))) \<and>
   ((\<forall>v. 0 \<le> dependency (st v)) \<and> BC_iteration g s st = Some (Inr sta) \<longrightarrow>
      (\<forall>v. 0 \<le> dependency (sta v)))"
proof (intro conjI impI)
  show init: "\<forall>v\<in>set (allNodes g). dependency (InitializeGraph_go g sti v) = 0"
    by (simp add: InitializeGraph_go_def do_all_def InitializeGraph_fold InitializeGraph_nd_def)
  assume "BC_go_loop cfg g rs loop_end 0 (InitializeGraph_go g sti) = Some (Inr st')"
  then show "\<forall>v\<in>set (allNodes g). dependency (st' v) = 0"
    using init by (rule BC_go_loop_dependency_zero)
next
  assume "(\<forall>v\<in>set (allNodes g). dependency (st v) = 0) \<and> BC_iteration g s st = Some (Inr sta)"
  then show "\<forall>v\<in>set (allNodes g). dependency (sta v) = 0"
    using BC_iteration_dependency_zero by blast
next
  assume "InitializeIteration_go g s st = Inr stb"
  then show "\<forall>v. dependency (stb v) = dependency (st v)"
    unfolding InitializeIteration_go_def
    using InitializeIteration_keeps_dependency by blast
next
  assume "(\<forall>v. 0 \<le> dependency (st v)) \<and> BC_iteration g s st = Some (Inr sta)"
  then show "\<forall>v. 0 \<le> dependency (sta v)"
    using BC_iteration_dependency_nonneg by blast
qed

theorem dependency_zero_at_iteration_start_witness:
  "dependency (path3_delta 1) = 1 \<and>
   dependency (do_all BC_op (allNodes path3) path3_delta 0) = 0 \<and>
   dependency (do_all BC_op (allNodes path3) path3_delta 1) = 0 \<and>
   dependency (do_all BC_op (allNodes path3) path3_delta 2) = 0 \<and>
   (\<forall>v. dependency (path3_start v) = dependency (unreached_state v)) \<and>
   (\<forall>v. 0 \<le> dependency (do_all BC_op (allNodes path3) path3_delta v))"
proof -
  note T = dependency_zero_at_iteration_start [where cfg = cap1 and g = path3 and rs = "[]"
      and loop_end = 1 and sti = unreached_state and st = unreached_state and s = 0
      and st' = "do_all BC_op (allNodes path3) path3_delta"
      and sta = "do_all BC_op (allNodes path3) path3_delta" and stb = path3_start]
  have z: "\<forall>v. dependency (unreached_state v) = 0"
    by (simp add: unreached_state_def zero_node_def)
  have a: "\<forall>v\<in>set (allNodes path3). dependency (do_all BC_op (allNodes path3) path3_delta v) = 0"
    using T path3_go by (simp add: path3_InitializeGraph)
  have a': "\<forall>v\<in>set (allNodes path3). dependency (do_all BC_op (allNodes path3) path3_delta v) = 0"
    using T path3_iteration z by blast
  have b: "\<forall>v. dependency (path3_start v) = dependency (unreached_state v)"
    using T path3_InitializeIteration by blast
  have c: "\<forall>v. 0 \<le> dependency (do_all BC_op (allNodes path3) path3_delta v)"
    using T path3_iteration z by simp
  have d: "dependency (path3_delta 1) = 1"
    by (simp add: path3_delta_def zero_node_def)
  have e: "dependency (do_all BC_op (allNodes path3) path3_delta 0) = 0 \<and>
      dependency (do_all BC_op (allNodes path3) path3_delta 1) = 0 \<and>
      dependency (do_all BC_op (allNodes path3) path3_delta 2) = 0"
    using a a' by (simp add: path3_def)
  from e b c d show ?thesis by blast
qed

subsection \<open>The sampled sources\<close>









end
